theory Spec2Isabelle
  imports Complex_Main
begin

section \<open>Values of the push channel and of the bulk fetch\<close>

text \<open>
  The handlers of \<^verbatim>\<open>src/frontend/script.js\<close> receive whatever the channel
  delivers, so an event, its \<^verbatim>\<open>data\<close> field, a batch item and a stored
  token are all values of one type. Numbers are only stored and compared by the
  handlers, never computed with, so a finite number is a rational. An object is the
  map of its own properties; an array carries its elements and the named properties
  that an assignment such as \<^verbatim>\<open>token.price_sol = ...\<close> may add to it.
\<close>

datatype jsval =
    JUndefined
  | JNull
  | JBool bool
  | JNum rat
  | JStr string
  | JArr "jsval list" "string \<Rightarrow> jsval option"
  | JObj "string \<Rightarrow> jsval option"

datatype error = TypeError

text \<open>The outcome of one handler run: it returned, or a TypeError left it uncaught.\<close>

datatype outcome = Returned | Thrown

text \<open>\<^verbatim>\<open>if (v)\<close>, \<^verbatim>\<open>v || w\<close>, \<^verbatim>\<open>v && w\<close>: the truthiness of a value.\<close>

fun truthy :: "jsval \<Rightarrow> bool" where
  "truthy JUndefined = False"
| "truthy JNull = False"
| "truthy (JBool b) = b"
| "truthy (JNum n) = (n \<noteq> 0)"
| "truthy (JStr s) = (s \<noteq> [])"
| "truthy (JArr xs m) = True"
| "truthy (JObj m) = True"

fun nullish :: "jsval \<Rightarrow> bool" where
  "nullish JUndefined = True"
| "nullish JNull = True"
| "nullish v = False"

fun isArray :: "jsval \<Rightarrow> bool" where
  "isArray (JArr xs m) = True"
| "isArray v = False"

text \<open>
  \<^verbatim>\<open>v.k\<close> for the property names the script writes out (\<^verbatim>\<open>data\<close>,
  \<^verbatim>\<open>token_address\<close>, \<^verbatim>\<open>new_price\<close>, ...; none is an array index,
  \<^verbatim>\<open>length\<close> or a name of a built-in prototype). Reading a property of
  \<^verbatim>\<open>undefined\<close> or \<^verbatim>\<open>null\<close> throws a TypeError; a primitive has
  none of these properties; an absent property reads as \<^verbatim>\<open>undefined\<close>.
\<close>

fun get_prop :: "jsval \<Rightarrow> string \<Rightarrow> error + jsval" where
  "get_prop JUndefined k = Inl TypeError"
| "get_prop JNull k = Inl TypeError"
| "get_prop (JBool b) k = Inr JUndefined"
| "get_prop (JNum n) k = Inr JUndefined"
| "get_prop (JStr s) k = Inr JUndefined"
| "get_prop (JArr xs m) k = Inr (case m k of None \<Rightarrow> JUndefined | Some v \<Rightarrow> v)"
| "get_prop (JObj m) k = Inr (case m k of None \<Rightarrow> JUndefined | Some v \<Rightarrow> v)"

text \<open>
  \<^verbatim>\<open>a === b\<close>. Two objects or arrays are equal only when they are the same
  allocation; the two sides compared by the handlers come from two separately
  deserialised messages, so they never are.
\<close>

fun strict_eq :: "jsval \<Rightarrow> jsval \<Rightarrow> bool" where
  "strict_eq JUndefined JUndefined = True"
| "strict_eq JNull JNull = True"
| "strict_eq (JBool a) (JBool b) = (a = b)"
| "strict_eq (JNum a) (JNum b) = (a = b)"
| "strict_eq (JStr a) (JStr b) = (a = b)"
| "strict_eq a b = False"

text \<open>
  \<^verbatim>\<open>token.k = x\<close> in a classic (non-strict) script, for a truthy
  \<^verbatim>\<open>token\<close> and one of the names \<^verbatim>\<open>price_sol\<close>,
  \<^verbatim>\<open>price_24hr_change\<close>, \<^verbatim>\<open>volume_sol\<close>: an object or array gets the
  property, on a primitive the assignment is silently dropped. (The script is a classic
  one: its paging functions are called from the page's markup only.)
\<close>

fun set_prop :: "jsval \<Rightarrow> string \<Rightarrow> jsval \<Rightarrow> jsval" where
  "set_prop (JObj m) k x = JObj (m(k \<mapsto> x))"
| "set_prop (JArr xs m) k x = JArr xs (m(k \<mapsto> x))"
| "set_prop v k x = v"

text \<open>The decimal name of an array index, as the key of the property it becomes.\<close>

function str_of_nat :: "nat \<Rightarrow> string" where
  "str_of_nat n =
     (if n < 10 then [char_of (48 + n)]
      else str_of_nat (n div 10) @ [char_of (48 + n mod 10)])"
  by pat_completeness auto
termination
  by (relation "measure (\<lambda>n. n)") auto

declare str_of_nat.simps [simp del]

text \<open>
  The own enumerable properties that object spread \<^verbatim>\<open>{...v}\<close> copies:
  none for \<^verbatim>\<open>undefined\<close>, \<^verbatim>\<open>null\<close>, a boolean or a number, the indexed
  characters of a string, the indexed elements and named properties of an array, the
  properties of an object.
\<close>

definition indexed :: "jsval list \<Rightarrow> string \<Rightarrow> jsval option" where
  "indexed xs = map_of (zip (map str_of_nat [0..<length xs]) xs)"

fun own_props :: "jsval \<Rightarrow> string \<Rightarrow> jsval option" where
  "own_props (JStr s) = indexed (map (\<lambda>c. JStr [c]) s)"
| "own_props (JArr xs m) = indexed xs ++ m"
| "own_props (JObj m) = m"
| "own_props v = Map.empty"

text \<open>\<^verbatim>\<open>{ ...base, ...patch }\<close>: a fresh object, the patch's properties over the base's.\<close>

definition spread2 :: "jsval \<Rightarrow> jsval \<Rightarrow> jsval" where
  "spread2 base patch = JObj (own_props base ++ own_props patch)"

section \<open>The state of the page\<close>

text \<open>
  The module-level variables \<^verbatim>\<open>allTokens\<close>, \<^verbatim>\<open>filteredTokens\<close>,
  \<^verbatim>\<open>currentPage\<close>, \<^verbatim>\<open>updateCount\<close>, and what the rendering has last
  written to the document: the tokens shown as rows (none for the empty-state
  message), the page line, the two buttons and the two counters. The counter is a
  JavaScript number, exact below \<open>2 ^ 53\<close>; it is a natural number here. The
  markup and the formatted numbers themselves and the highlight timers are outside the
  model, and the elements the script looks up in the document are taken to exist.

  \<^verbatim>\<open>filteredTokens\<close> is the shallow copy \<^verbatim>\<open>[...allTokens]\<close> that
  \<^verbatim>\<open>applyClientFilters\<close> makes; it is kept as the list of values it had when it
  was made. In the browser the two arrays share the token objects, so after a price or
  volume batch that an exception has stopped, and until the next refresh, the writes
  already made show through \<^verbatim>\<open>filteredTokens\<close> too; no statement below reads
  \<^verbatim>\<open>filteredTokens\<close> in that window.
\<close>

record state =
  allTokens :: "jsval list"
  filteredTokens :: "jsval list"
  currentPage :: int
  updateCount :: nat
  rows :: "jsval list"
  pageInfo :: "int \<times> int"
  prevDisabled :: bool
  nextDisabled :: bool
  totalTokensText :: nat
  liveUpdatesText :: nat

definition tokensPerPage :: int where
  "tokensPerPage = 25"

text \<open>\<^verbatim>\<open>xs.slice(start, end)\<close>: a negative bound counts from the end, both are clamped.\<close>

definition js_slice :: "'a list \<Rightarrow> int \<Rightarrow> int \<Rightarrow> 'a list" where
  "js_slice xs start end' =
     (let len = int (length xs);
          from = (if start < 0 then max (len + start) 0 else min start len);
          to = (if end' < 0 then max (len + end') 0 else min end' len)
      in take (nat (to - from)) (drop (nat from) xs))"

text \<open>\<^verbatim>\<open>Math.ceil(filteredTokens.length / tokensPerPage)\<close>.\<close>

definition totalPages :: "state \<Rightarrow> int" where
  "totalPages s = \<lceil>(of_nat (length (filteredTokens s)) :: rat) / of_int tokensPerPage\<rceil>"

definition pageTokens :: "state \<Rightarrow> jsval list" where
  "pageTokens s =
     (let start = (currentPage s - 1) * tokensPerPage;
          end' = start + tokensPerPage
      in js_slice (filteredTokens s) start end')"

definition updatePagination :: "state \<Rightarrow> state" where
  "updatePagination s =
     s\<lparr>pageInfo := (currentPage s, totalPages s),
       prevDisabled := (currentPage s = 1),
       nextDisabled := (currentPage s \<ge> totalPages s)\<rparr>"

text \<open>
  The strings and numbers that rendering produces are outside the model, but not the
  exceptions their computation can raise. \<^verbatim>\<open>parseFloat(v)\<close> and a template
  substitution \<^verbatim>\<open>${v}\<close> both convert \<open>v\<close> to a string. That conversion
  succeeds on every primitive. On an object it calls \<^verbatim>\<open>toString\<close>; an object that
  arrived as data has the built-in one unless it has a property of that name of its
  own, which is then no function, and neither it nor \<^verbatim>\<open>valueOf\<close> yields a
  primitive: a TypeError. On an array the built-in \<^verbatim>\<open>toString\<close> joins the
  elements, converting each one that is neither \<^verbatim>\<open>undefined\<close> nor
  \<^verbatim>\<open>null\<close> in turn (or, when the array has a property \<^verbatim>\<open>join\<close> of its own,
  falls back to the built-in conversion of objects).
\<close>

fun stringable :: "jsval \<Rightarrow> bool" where
  "stringable (JObj m) = (m ''toString'' = None)"
| "stringable (JArr xs m) =
     (m ''toString'' = None \<and>
      (m ''join'' \<noteq> None \<or> list_all (\<lambda>x. nullish x \<or> stringable x) xs))"
| "stringable v = True"

text \<open>\<^verbatim>\<open>a || b\<close>.\<close>

definition or_else :: "jsval \<Rightarrow> jsval \<Rightarrow> jsval" where
  "or_else a b = (if truthy a then a else b)"

text \<open>
  \<^verbatim>\<open>token.k\<close> where an earlier read of the same token has already succeeded, so
  that the token is neither \<^verbatim>\<open>undefined\<close> nor \<^verbatim>\<open>null\<close>.
\<close>

definition field :: "jsval \<Rightarrow> string \<Rightarrow> jsval" where
  "field token k = (case get_prop token k of Inl e \<Rightarrow> JUndefined | Inr v \<Rightarrow> v)"

text \<open>
  \<^verbatim>\<open>formatNumber(num)\<close> returns at once for a falsy argument and calls
  \<^verbatim>\<open>parseFloat(num)\<close> otherwise; this is whether it returns.
\<close>

definition formatNumber_returns :: "jsval \<Rightarrow> bool" where
  "formatNumber_returns num = (if \<not> truthy num then True else stringable num)"

text \<open>
  Whether the row template of \<^verbatim>\<open>renderTokens\<close> evaluates for a token without an
  exception: the first read, \<^verbatim>\<open>token.price_24hr_change\<close>, throws on
  \<^verbatim>\<open>undefined\<close> and \<^verbatim>\<open>null\<close>; then come the conversions of the template, in
  the order of the source.
\<close>

definition row_renders :: "jsval \<Rightarrow> bool" where
  "row_renders token =
     (case get_prop token ''price_24hr_change'' of
        Inl e \<Rightarrow> False
      | Inr c \<Rightarrow>
          stringable (or_else c (or_else (field token ''price_change_24h'') (JNum 0))) \<and>
          stringable (field token ''token_address'') \<and>
          stringable (or_else (field token ''token_name'') (JStr ''Unknown'')) \<and>
          stringable (or_else (field token ''token_ticker'') (JStr ''N/A'')) \<and>
          stringable (or_else (field token ''price_sol'') (JNum 0)) \<and>
          formatNumber_returns
            (or_else (field token ''volume_sol'') (or_else (field token ''volume_24h'') (JNum 0))) \<and>
          formatNumber_returns
            (or_else (field token ''liquidity_sol'') (or_else (field token ''liquidity'') (JNum 0))) \<and>
          stringable (or_else (field token ''protocol'') (JStr ''N/A'')))"

text \<open>
  Whether the callback of the \<^verbatim>\<open>reduce\<close> in \<^verbatim>\<open>updateStats\<close>,
  \<^verbatim>\<open>sum + parseFloat(t.volume_sol || t.volume_24h || 0)\<close>, returns for a token.
\<close>

definition volume_parses :: "jsval \<Rightarrow> bool" where
  "volume_parses t =
     (case get_prop t ''volume_sol'' of
        Inl e \<Rightarrow> False
      | Inr v \<Rightarrow> stringable (or_else v (or_else (field t ''volume_24h'') (JNum 0))))"

text \<open>
  \<^verbatim>\<open>updateStats\<close> writes the two counters and then sums the volumes over the
  whole collection; the sum throws at the first token whose callback throws.
\<close>

definition updateStats :: "state \<Rightarrow> outcome \<times> state" where
  "updateStats s =
     (let s1 = s\<lparr>totalTokensText := length (allTokens s), liveUpdatesText := updateCount s\<rparr>
      in if list_all volume_parses (allTokens s1) then (Returned, s1) else (Thrown, s1))"

text \<open>
  \<^verbatim>\<open>renderTokens\<close>: an empty page shows the empty-state message and returns
  before the page line is touched; otherwise the rows are built first, and an
  exception in the template of any token of the page leaves the document as it was.
\<close>

definition renderTokens :: "state \<Rightarrow> outcome \<times> state" where
  "renderTokens s =
     (let pts = pageTokens s
      in if length pts = 0 then (Returned, s\<lparr>rows := []\<rparr>)
         else if \<not> list_all row_renders pts then (Thrown, s)
         else updateStats (updatePagination (s\<lparr>rows := pts\<rparr>)))"

definition applyClientFilters :: "state \<Rightarrow> outcome \<times> state" where
  "applyClientFilters s = renderTokens (s\<lparr>filteredTokens := allTokens s\<rparr>)"

text \<open>
  \<^verbatim>\<open>applyFilters\<close> starts a fetch and sets \<^verbatim>\<open>currentPage = 1\<close> at once; the
  fetch settles in a later turn (see \<open>fetchTokens\<close> below).
\<close>

definition applyFilters :: "state \<Rightarrow> outcome \<times> state" where
  "applyFilters s = (Returned, s\<lparr>currentPage := 1\<rparr>)"

definition prevPage :: "state \<Rightarrow> outcome \<times> state" where
  "prevPage s =
     (if currentPage s > 1 then renderTokens (s\<lparr>currentPage := currentPage s - 1\<rparr>)
      else (Returned, s))"

definition nextPage :: "state \<Rightarrow> outcome \<times> state" where
  "nextPage s =
     (if currentPage s < totalPages s then renderTokens (s\<lparr>currentPage := currentPage s + 1\<rparr>)
      else (Returned, s))"

section \<open>The handlers of the push channel\<close>

text \<open>
  \<^verbatim>\<open>allTokens.findIndex(t => t.token_address === item.token_address)\<close> and the
  \<^verbatim>\<open>find\<close> with the same callback: the first position whose token has the
  item's address. The callback reads the token's property first, then the item's, and
  either read may throw; on an empty collection the callback never runs.
\<close>

fun find_token :: "jsval list \<Rightarrow> jsval \<Rightarrow> error + nat option" where
  "find_token [] item = Inr None"
| "find_token (t # ts) item =
     (case get_prop t ''token_address'' of
        Inl e \<Rightarrow> Inl e
      | Inr a \<Rightarrow>
          (case get_prop item ''token_address'' of
             Inl e \<Rightarrow> Inl e
           | Inr b \<Rightarrow>
               if strict_eq a b then Inr (Some 0)
               else (case find_token ts item of
                       Inl e \<Rightarrow> Inl e
                     | Inr None \<Rightarrow> Inr None
                     | Inr (Some i) \<Rightarrow> Inr (Some (Suc i)))))"

text \<open>The body of the \<^verbatim>\<open>forEach\<close> of \<^verbatim>\<open>tokens_updated\<close>, on the collection.\<close>

definition tokens_updated_item :: "jsval list \<Rightarrow> jsval \<Rightarrow> error + jsval list" where
  "tokens_updated_item toks updated =
     (case find_token toks updated of
        Inl e \<Rightarrow> Inl e
      | Inr None \<Rightarrow> Inr toks
      | Inr (Some idx) \<Rightarrow> Inr (toks[idx := spread2 (toks ! idx) updated]))"

text \<open>The body of the \<^verbatim>\<open>forEach\<close> of \<^verbatim>\<open>price_update\<close>.\<close>

definition price_update_item :: "jsval list \<Rightarrow> jsval \<Rightarrow> error + jsval list" where
  "price_update_item toks update =
     (case find_token toks update of
        Inl e \<Rightarrow> Inl e
      | Inr None \<Rightarrow> Inr toks
      | Inr (Some i) \<Rightarrow>
          (let token = toks ! i
           in if truthy token then
                (case get_prop update ''new_price'' of
                   Inl e \<Rightarrow> Inl e
                 | Inr p \<Rightarrow>
                     (let token1 = set_prop token ''price_sol'' p
                      in case get_prop update ''change_percent'' of
                           Inl e \<Rightarrow> Inl e
                         | Inr c \<Rightarrow> Inr (toks[i := set_prop token1 ''price_24hr_change'' c])))
              else Inr toks))"

text \<open>The body of the \<^verbatim>\<open>forEach\<close> of \<^verbatim>\<open>volume_spike\<close>.\<close>

definition volume_spike_item :: "jsval list \<Rightarrow> jsval \<Rightarrow> error + jsval list" where
  "volume_spike_item toks spike =
     (case find_token toks spike of
        Inl e \<Rightarrow> Inl e
      | Inr None \<Rightarrow> Inr toks
      | Inr (Some i) \<Rightarrow>
          (let token = toks ! i
           in if truthy token then
                (case get_prop spike ''new_volume'' of
                   Inl e \<Rightarrow> Inl e
                 | Inr v \<Rightarrow> Inr (toks[i := set_prop token ''volume_sol'' v]))
              else Inr toks))"

text \<open>
  \<^verbatim>\<open>items.forEach(body)\<close>: the items in order, each on the collection the
  previous ones left; an exception ends the loop and keeps what was written so far.
\<close>

fun forEach :: "(jsval list \<Rightarrow> jsval \<Rightarrow> error + jsval list) \<Rightarrow> jsval list \<Rightarrow> jsval list
    \<Rightarrow> outcome \<times> jsval list" where
  "forEach body [] toks = (Returned, toks)"
| "forEach body (item # items) toks =
     (case body toks item of
        Inl e \<Rightarrow> (Thrown, toks)
      | Inr toks' \<Rightarrow> forEach body items toks')"

text \<open>\<^verbatim>\<open>Array.isArray(event.data) ? event.data : [event.data]\<close>.\<close>

fun as_batch :: "jsval \<Rightarrow> jsval list" where
  "as_batch (JArr items m) = items"
| "as_batch v = [v]"

definition initial_data :: "state \<Rightarrow> jsval \<Rightarrow> outcome \<times> state" where
  "initial_data s event =
     (case get_prop event ''data'' of
        Inl e \<Rightarrow> (Thrown, s)
      | Inr d \<Rightarrow>
          if truthy d \<and> isArray d then applyClientFilters (s\<lparr>allTokens := as_batch d\<rparr>)
          else (Returned, s))"

definition tokens_updated :: "state \<Rightarrow> jsval \<Rightarrow> outcome \<times> state" where
  "tokens_updated s event =
     (let s1 = s\<lparr>updateCount := updateCount s + 1\<rparr>
      in case get_prop event ''data'' of
           Inl e \<Rightarrow> (Thrown, s1)
         | Inr d \<Rightarrow>
             if truthy d \<and> isArray d then
               (case forEach tokens_updated_item (as_batch d) (allTokens s1) of
                  (Thrown, toks) \<Rightarrow> (Thrown, s1\<lparr>allTokens := toks\<rparr>)
                | (Returned, toks) \<Rightarrow> applyClientFilters (s1\<lparr>allTokens := toks\<rparr>))
             else (Returned, s1))"

definition price_update :: "state \<Rightarrow> jsval \<Rightarrow> outcome \<times> state" where
  "price_update s event =
     (let s1 = s\<lparr>updateCount := updateCount s + 1\<rparr>
      in case get_prop event ''data'' of
           Inl e \<Rightarrow> (Thrown, s1)
         | Inr d \<Rightarrow>
             (case forEach price_update_item (as_batch d) (allTokens s1) of
                (Thrown, toks) \<Rightarrow> (Thrown, s1\<lparr>allTokens := toks\<rparr>)
              | (Returned, toks) \<Rightarrow> applyClientFilters (s1\<lparr>allTokens := toks\<rparr>)))"

definition volume_spike :: "state \<Rightarrow> jsval \<Rightarrow> outcome \<times> state" where
  "volume_spike s event =
     (let s1 = s\<lparr>updateCount := updateCount s + 1\<rparr>
      in case get_prop event ''data'' of
           Inl e \<Rightarrow> (Thrown, s1)
         | Inr d \<Rightarrow>
             (case forEach volume_spike_item (as_batch d) (allTokens s1) of
                (Thrown, toks) \<Rightarrow> (Thrown, s1\<lparr>allTokens := toks\<rparr>)
              | (Returned, toks) \<Rightarrow> applyClientFilters (s1\<lparr>allTokens := toks\<rparr>)))"

text \<open>
  \<^verbatim>\<open>allTokens.unshift(event.data); if (allTokens.length > 100) allTokens.pop()\<close>.
\<close>

definition unshift_pop :: "jsval list \<Rightarrow> jsval \<Rightarrow> jsval list" where
  "unshift_pop toks d =
     (let toks1 = d # toks
      in if length toks1 > 100 then butlast toks1 else toks1)"

definition new_token :: "state \<Rightarrow> jsval \<Rightarrow> outcome \<times> state" where
  "new_token s event =
     (let s1 = s\<lparr>updateCount := updateCount s + 1\<rparr>
      in case get_prop event ''data'' of
           Inl e \<Rightarrow> (Thrown, s1)
         | Inr d \<Rightarrow>
             if truthy d then applyClientFilters (s1\<lparr>allTokens := unshift_pop (allTokens s1) d\<rparr>)
             else (Returned, s1))"

section \<open>The bulk fetch\<close>

text \<open>
  \<^verbatim>\<open>fetchTokens\<close> from the point where its two awaits have settled: the
  request or the parsing of its body was rejected, or the body parsed to a value.
  Everything after that runs in one turn inside the \<^verbatim>\<open>try\<close>. A body that is
  \<^verbatim>\<open>null\<close> throws at \<^verbatim>\<open>data.data\<close>; a chosen value that is no array has no
  \<^verbatim>\<open>map\<close> to call; the callback of \<^verbatim>\<open>allTokens.map\<close> reads
  \<^verbatim>\<open>t.token_name\<close>, which throws on a \<^verbatim>\<open>null\<close> element. The
  \<^verbatim>\<open>catch\<close> empties the collection and renders again.
\<close>

datatype fetch_result = Rejected | Resolved jsval

definition fetch_catch :: "state \<Rightarrow> outcome \<times> state" where
  "fetch_catch s = applyClientFilters (s\<lparr>allTokens := []\<rparr>)"

text \<open>\<^verbatim>\<open>data.data?.data || data.data || []\<close>.\<close>

definition fetched_tokens :: "jsval \<Rightarrow> error + jsval" where
  "fetched_tokens data =
     (case get_prop data ''data'' of
        Inl e \<Rightarrow> Inl e
      | Inr d1 \<Rightarrow>
          (case (if nullish d1 then Inr JUndefined else get_prop d1 ''data'') of
             Inl e \<Rightarrow> Inl e
           | Inr d2 \<Rightarrow>
               Inr (if truthy d2 then d2 else if truthy d1 then d1 else JArr [] Map.empty)))"

definition fetchTokens :: "state \<Rightarrow> fetch_result \<Rightarrow> outcome \<times> state" where
  "fetchTokens s r =
     (case r of
        Rejected \<Rightarrow> fetch_catch s
      | Resolved data \<Rightarrow>
          (case fetched_tokens data of
             Inl e \<Rightarrow> fetch_catch s
           | Inr v \<Rightarrow>
               if \<not> isArray v then fetch_catch s
               else if list_ex nullish (as_batch v) then fetch_catch (s\<lparr>allTokens := as_batch v\<rparr>)
               else (case applyClientFilters (s\<lparr>allTokens := as_batch v\<rparr>) of
                       (Thrown, s') \<Rightarrow> fetch_catch s'
                     | (Returned, s') \<Rightarrow> (Returned, s'))))"

section \<open>Sequences of events\<close>

datatype event =
    InitialData jsval
  | TokensUpdated jsval
  | PriceUpdate jsval
  | VolumeSpike jsval
  | NewToken jsval
  | FetchSettled fetch_result
  | ApplyFilters
  | PrevPage
  | NextPage

fun dispatch :: "state \<Rightarrow> event \<Rightarrow> outcome \<times> state" where
  "dispatch s (InitialData e) = initial_data s e"
| "dispatch s (TokensUpdated e) = tokens_updated s e"
| "dispatch s (PriceUpdate e) = price_update s e"
| "dispatch s (VolumeSpike e) = volume_spike s e"
| "dispatch s (NewToken e) = new_token s e"
| "dispatch s (FetchSettled r) = fetchTokens s r"
| "dispatch s ApplyFilters = applyFilters s"
| "dispatch s PrevPage = prevPage s"
| "dispatch s NextPage = nextPage s"

text \<open>
  The event loop runs the handlers one after another; an exception that leaves a
  handler is reported and the next event is handled on the state as it stands.
\<close>

fun run :: "state \<Rightarrow> event list \<Rightarrow> state" where
  "run s [] = s"
| "run s (e # es) = run (snd (dispatch s e)) es"

text \<open>The events that carry updates: every kind but the snapshot, the fetch and paging.\<close>

fun is_update :: "event \<Rightarrow> bool" where
  "is_update (TokensUpdated e) = True"
| "is_update (PriceUpdate e) = True"
| "is_update (VolumeSpike e) = True"
| "is_update (NewToken e) = True"
| "is_update e = False"

text \<open>The start of the script: an empty collection, page 1, no update counted.\<close>

definition initial_state :: state where
  "initial_state =
     \<lparr>allTokens = [], filteredTokens = [], currentPage = 1, updateCount = 0,
      rows = [], pageInfo = (1, 1), prevDisabled = True, nextDisabled = True,
      totalTokensText = 0, liveUpdatesText = 0\<rparr>"

section \<open>Notions used to state the properties\<close>

text \<open>
  The callback of \<^verbatim>\<open>find\<close> and \<^verbatim>\<open>findIndex\<close> as a truth value: both
  reads succeed and the two addresses are strictly equal.
\<close>

definition same_address :: "jsval \<Rightarrow> jsval \<Rightarrow> bool" where
  "same_address t item =
     (case get_prop t ''token_address'' of
        Inl e \<Rightarrow> False
      | Inr a \<Rightarrow>
          (case get_prop item ''token_address'' of
             Inl e \<Rightarrow> False
           | Inr b \<Rightarrow> strict_eq a b))"

text \<open>An event object whose \<^verbatim>\<open>data\<close> field holds the given value.\<close>

definition event_of :: "jsval \<Rightarrow> jsval" where
  "event_of d = JObj [''data'' \<mapsto> d]"

text \<open>
  What one run of a loop body may do to the collection: it keeps the length, it
  leaves the properties outside \<open>K\<close> of every record as they read before, and it
  leaves alone every record whose address is not the item's.
\<close>

definition frames :: "string set \<Rightarrow> (jsval list \<Rightarrow> jsval \<Rightarrow> error + jsval list) \<Rightarrow> bool" where
  "frames K body \<longleftrightarrow>
     (\<forall>toks item toks'. body toks item = Inr toks' \<longrightarrow>
        length toks' = length toks \<and>
        (\<forall>j<length toks.
           (\<forall>k. k \<notin> K \<longrightarrow> get_prop (toks' ! j) k = get_prop (toks ! j) k) \<and>
           (\<not> same_address (toks ! j) item \<longrightarrow> toks' ! j = toks ! j)))"

text \<open>
  A loop body that, on a collection and an item that are neither \<^verbatim>\<open>null\<close> nor
  \<^verbatim>\<open>undefined\<close>, returns, keeps the length and keeps every record's address.
\<close>

definition steady :: "(jsval list \<Rightarrow> jsval \<Rightarrow> error + jsval list) \<Rightarrow> bool" where
  "steady body \<longleftrightarrow>
     (\<forall>toks item. (\<forall>t\<in>set toks. \<not> nullish t) \<and> \<not> nullish item \<longrightarrow>
        (\<exists>t1. body toks item = Inr t1 \<and> length t1 = length toks \<and>
           (\<forall>j<length toks.
              get_prop (t1 ! j) ''token_address'' = get_prop (toks ! j) ''token_address'')))"

text \<open>A token record that has nothing but an address, the number \<open>i\<close>.\<close>

definition numbered :: "nat \<Rightarrow> jsval" where
  "numbered i = JObj [''token_address'' \<mapsto> JNum (of_nat i)]"

section \<open>Facts about rendering and lookup\<close>

lemma error_TypeError [simp]: "(e = TypeError) = True" "(TypeError = e) = True"
  by (cases e; simp)+

lemma allTokens_renderTokens: "allTokens (snd (renderTokens s)) = allTokens s"
  by (simp add: renderTokens_def updateStats_def updatePagination_def Let_def)

lemma updateCount_renderTokens: "updateCount (snd (renderTokens s)) = updateCount s"
  by (simp add: renderTokens_def updateStats_def updatePagination_def Let_def)

lemma allTokens_applyClientFilters [simp]: "allTokens (snd (applyClientFilters s)) = allTokens s"
  by (simp add: applyClientFilters_def allTokens_renderTokens)

lemma updateCount_applyClientFilters [simp]:
  "updateCount (snd (applyClientFilters s)) = updateCount s"
  by (simp add: applyClientFilters_def updateCount_renderTokens)

lemma get_prop_not_nullish: "\<not> nullish v \<Longrightarrow> \<exists>a. get_prop v k = Inr a"
  by (cases v) simp_all

lemma get_prop_Inr_not_nullish: "get_prop v k = Inr a \<Longrightarrow> \<not> nullish v"
  by (cases v) simp_all

lemma find_token_Some:
  "find_token toks item = Inr (Some i) \<Longrightarrow>
     i < length toks \<and> same_address (toks ! i) item \<and> (\<forall>j<i. \<not> same_address (toks ! j) item)"
proof (induction toks arbitrary: i)
  case Nil
  then show ?case by simp
next
  case (Cons t ts)
  then show ?case
    by (auto simp: same_address_def less_Suc_eq_0_disj split: sum.splits if_splits option.splits)
qed

lemma find_token_no_match:
  "\<forall>t\<in>set toks. \<not> same_address t item \<Longrightarrow>
     find_token toks item = Inr None \<or> find_token toks item = Inl TypeError"
proof (induction toks)
  case Nil
  then show ?case by simp
next
  case (Cons t ts)
  then show ?case
    by (cases "get_prop t ''token_address''"; cases "get_prop item ''token_address''")
       (auto simp: same_address_def split: sum.splits)
qed

lemma find_token_defined:
  "\<forall>t\<in>set toks. \<not> nullish t \<Longrightarrow> \<not> nullish item \<Longrightarrow> \<exists>r. find_token toks item = Inr r"
proof (induction toks)
  case Nil
  then show ?case by simp
next
  case (Cons t ts)
  obtain a where a: "get_prop t ''token_address'' = Inr a"
    using Cons.prems(1) get_prop_not_nullish by force
  obtain b where b: "get_prop item ''token_address'' = Inr b"
    using Cons.prems(2) get_prop_not_nullish by blast
  obtain r where "find_token ts item = Inr r"
    using Cons by auto
  then show ?case
    by (cases r) (simp_all add: a b)
qed

lemma find_token_None:
  "find_token toks item = Inr None \<Longrightarrow> \<forall>t\<in>set toks. \<not> same_address t item"
proof (induction toks)
  case Nil
  then show ?case by simp
next
  case (Cons t ts)
  then show ?case
    by (auto simp: same_address_def split: sum.splits if_splits option.splits)
qed

lemma find_token_match:
  assumes "\<forall>t\<in>set toks. \<not> nullish t" and "\<not> nullish item"
      and "\<exists>t\<in>set toks. same_address t item"
  shows "\<exists>i. find_token toks item = Inr (Some i)"
proof -
  obtain r where r: "find_token toks item = Inr r"
    using find_token_defined [OF assms(1,2)] by blast
  show ?thesis
  proof (cases r)
    case None
    with r assms(3) find_token_None show ?thesis by blast
  next
    case (Some i)
    with r show ?thesis by blast
  qed
qed

section \<open>The merge of a bulk patch\<close>

text \<open>
  C1. When \<^verbatim>\<open>tokens_updated\<close> delivers an item whose address is found at
  position \<open>idx\<close> of the collection, the record there is replaced by an object
  that has, for every property name, the item's value where the item has the
  property and the stored record's value where it has not; every other position of
  the collection is as before. For a stored \<^verbatim>\<open>{price_sol: 1, volume_sol: 5}\<close>
  and an item \<^verbatim>\<open>{price_sol: 2}\<close> the result holds \<^verbatim>\<open>price_sol: 2\<close> and
  \<^verbatim>\<open>volume_sol: 5\<close>.
\<close>

theorem tokens_updated_merges_fields:
  assumes "find_token (allTokens s) item = Inr (Some idx)"
      and "get_prop event ''data'' = Inr (JArr [item] m)"
  shows "\<exists>r'. allTokens (snd (tokens_updated s event)) = (allTokens s)[idx := JObj r'] \<and>
           (\<forall>k. r' k = (if k \<in> dom (own_props item) then own_props item k
                         else own_props (allTokens s ! idx) k))"
proof -
  have "allTokens (snd (tokens_updated s event)) =
          (allTokens s)[idx := spread2 (allTokens s ! idx) item]"
    using assms by (simp add: tokens_updated_def tokens_updated_item_def)
  moreover have "\<forall>k. (own_props (allTokens s ! idx) ++ own_props item) k =
      (if k \<in> dom (own_props item) then own_props item k else own_props (allTokens s ! idx) k)"
    by (auto simp: map_add_def split: option.splits)
  ultimately show ?thesis
    unfolding spread2_def by blast
qed

theorem tokens_updated_merges_fields_witness:
  "\<exists>r'. allTokens (snd (tokens_updated
            (initial_state\<lparr>allTokens :=
               [JObj [''token_address'' \<mapsto> JStr ''A'', ''price_sol'' \<mapsto> JNum 1,
                      ''volume_sol'' \<mapsto> JNum 5]]\<rparr>)
            (event_of (JArr [JObj [''token_address'' \<mapsto> JStr ''A'', ''price_sol'' \<mapsto> JNum 2]]
               Map.empty)))) = [JObj r'] \<and>
         r' ''price_sol'' = Some (JNum 2) \<and> r' ''volume_sol'' = Some (JNum 5) \<and>
         r' ''token_address'' = Some (JStr ''A'')"
proof -
  let ?item = "JObj [''token_address'' \<mapsto> JStr ''A'', ''price_sol'' \<mapsto> JNum 2]"
  let ?s = "initial_state\<lparr>allTokens :=
               [JObj [''token_address'' \<mapsto> JStr ''A'', ''price_sol'' \<mapsto> JNum 1,
                      ''volume_sol'' \<mapsto> JNum 5]]\<rparr>"
  let ?ev = "event_of (JArr [?item] Map.empty)"
  have found: "find_token (allTokens ?s) ?item = Inr (Some 0)"
    by simp
  have data: "get_prop ?ev ''data'' = Inr (JArr [?item] Map.empty)"
    by (simp add: event_of_def)
  obtain r' where r': "allTokens (snd (tokens_updated ?s ?ev)) = (allTokens ?s)[0 := JObj r']"
    and fields: "\<And>k. r' k = (if k \<in> dom (own_props ?item) then own_props ?item k
                         else own_props (allTokens ?s ! 0) k)"
    using tokens_updated_merges_fields [OF found data] by blast
  have "r' ''price_sol'' = Some (JNum 2)" "r' ''volume_sol'' = Some (JNum 5)"
    "r' ''token_address'' = Some (JStr ''A'')"
    by (simp_all add: fields)
  moreover have "allTokens (snd (tokens_updated ?s ?ev)) = [JObj r']"
    using r' by simp
  ultimately show ?thesis by blast
qed

section \<open>The update counter\<close>

lemma updateCount_initial_data: "updateCount (snd (initial_data s e)) = updateCount s"
  by (simp add: initial_data_def split: sum.splits)

lemma updateCount_tokens_updated: "updateCount (snd (tokens_updated s e)) = updateCount s + 1"
  by (simp add: tokens_updated_def Let_def split: sum.splits prod.splits outcome.splits)

lemma updateCount_price_update: "updateCount (snd (price_update s e)) = updateCount s + 1"
  by (simp add: price_update_def Let_def split: sum.splits prod.splits outcome.splits)

lemma updateCount_volume_spike: "updateCount (snd (volume_spike s e)) = updateCount s + 1"
  by (simp add: volume_spike_def Let_def split: sum.splits prod.splits outcome.splits)

lemma updateCount_new_token: "updateCount (snd (new_token s e)) = updateCount s + 1"
  by (simp add: new_token_def Let_def split: sum.splits)

lemma updateCount_fetch_catch: "updateCount (snd (fetch_catch s)) = updateCount s"
  by (simp add: fetch_catch_def)

lemma updateCount_fetchTokens: "updateCount (snd (fetchTokens s r)) = updateCount s"
  by (auto simp: fetchTokens_def updateCount_fetch_catch
      split: fetch_result.splits sum.splits prod.splits outcome.splits
      dest: arg_cong [where f = "\<lambda>p. updateCount (snd p)"])

lemma updateCount_paging:
  "updateCount (snd (prevPage s)) = updateCount s"
  "updateCount (snd (nextPage s)) = updateCount s"
  "updateCount (snd (applyFilters s)) = updateCount s"
  by (simp_all add: prevPage_def nextPage_def applyFilters_def updateCount_renderTokens)

lemma updateCount_dispatch:
  "updateCount (snd (dispatch s e)) = updateCount s + (if is_update e then 1 else 0)"
  by (cases e)
     (simp_all add: updateCount_initial_data updateCount_tokens_updated updateCount_price_update
        updateCount_volume_spike updateCount_new_token updateCount_fetchTokens updateCount_paging)

text \<open>
  C8. After any sequence of events the update counter is its value before plus the
  number of update events in the sequence (bulk patch, price tick, volume tick, new
  entity): each such event counts once, whatever it carried and however many records
  it touched, and the snapshot, the fetch and paging count nothing.
\<close>

theorem update_counter_counts_events:
  "updateCount (run s es) = updateCount s + length (filter is_update es)"
proof (induction es arbitrary: s)
  case Nil
  show ?case by simp
next
  case (Cons e es)
  show ?case by (simp add: Cons.IH updateCount_dispatch)
qed

theorem update_counter_counts_events_witness:
  "updateCount (run initial_state
     [TokensUpdated (event_of (JArr [JObj Map.empty, JObj Map.empty] Map.empty)),
      InitialData JNull, NewToken JUndefined, PriceUpdate (event_of JNull)]) = 3"
  using update_counter_counts_events [of initial_state
     "[TokensUpdated (event_of (JArr [JObj Map.empty, JObj Map.empty] Map.empty)),
       InitialData JNull, NewToken JUndefined, PriceUpdate (event_of JNull)]"]
  by (simp add: initial_state_def)

section \<open>A new entity without data\<close>

text \<open>
  C9. A \<^verbatim>\<open>new_token\<close> event whose \<^verbatim>\<open>data\<close> field is absent or falsy
  changes nothing but the update counter, which goes up by one: the collection keeps
  every record, nothing is inserted and nothing is evicted.
\<close>

theorem new_token_without_data:
  assumes "get_prop ev ''data'' = Inr d" and "\<not> truthy d"
  shows "new_token s ev = (Returned, s\<lparr>updateCount := updateCount s + 1\<rparr>)"
  using assms by (simp add: new_token_def)

theorem new_token_without_data_witness:
  "new_token (initial_state\<lparr>allTokens := [JObj [''token_address'' \<mapsto> JStr ''A'']]\<rparr>)
     (JObj Map.empty) =
   (Returned, initial_state\<lparr>allTokens := [JObj [''token_address'' \<mapsto> JStr ''A'']],
      updateCount := 1\<rparr>)"
  using new_token_without_data [of "JObj Map.empty" JUndefined
      "initial_state\<lparr>allTokens := [JObj [''token_address'' \<mapsto> JStr ''A'']]\<rparr>"]
  by (simp add: initial_state_def)

section \<open>Insertion with eviction\<close>

lemma get_prop_event_of [simp]: "get_prop (event_of d) ''data'' = Inr d"
  by (simp add: event_of_def)

lemma allTokens_new_token:
  "get_prop ev ''data'' = Inr d \<Longrightarrow> truthy d \<Longrightarrow>
     allTokens (snd (new_token s ev)) = unshift_pop (allTokens s) d"
  by (simp add: new_token_def)


lemma unshift_pop_take:
  assumes "length toks \<le> 100"
  shows "unshift_pop toks d = take 100 (d # toks)"
proof (cases "length toks = 100")
  case True
  then show ?thesis
    by (simp add: unshift_pop_def butlast_conv_take)
next
  case False
  with assms show ?thesis
    by (simp add: unshift_pop_def)
qed

lemma take_append_take: "take n (xs @ take n ys) = take n (xs @ ys)"
  by (simp add: min_def)

lemma run_new_tokens:
  "\<forall>d\<in>set ds. truthy d \<Longrightarrow> length (allTokens s) \<le> 100 \<Longrightarrow>
     allTokens (run s (map (\<lambda>d. NewToken (event_of d)) ds)) = take 100 (rev ds @ allTokens s)"
proof (induction ds arbitrary: s)
  case Nil
  then show ?case by simp
next
  case (Cons d ds)
  let ?s1 = "snd (new_token s (event_of d))"
  have step: "allTokens ?s1 = take 100 (d # allTokens s)"
    using Cons.prems by (simp add: allTokens_new_token unshift_pop_take)
  then have "length (allTokens ?s1) \<le> 100"
    by simp
  with Cons have "allTokens (run ?s1 (map (\<lambda>d. NewToken (event_of d)) ds)) =
      take 100 (rev ds @ allTokens ?s1)"
    by simp
  also have "\<dots> = take 100 (rev ds @ d # allTokens s)"
    unfolding step by (rule take_append_take)
  finally show ?case by simp
qed

text \<open>
  C2. A \<^verbatim>\<open>new_token\<close> event with truthy data puts the record at the front
  and, when that makes the collection longer than 100, removes exactly the last
  record. 101 such events on an empty collection leave the 100 records inserted
  last, the most recent first; the record inserted first is gone, and so is its
  address when the 101 addresses differ.
\<close>

theorem new_token_fifo_bound:
  "(get_prop ev ''data'' = Inr d \<and> truthy d \<longrightarrow>
      allTokens (snd (new_token s ev)) =
        (if length (d # allTokens s) > 100 then butlast (d # allTokens s) else d # allTokens s)) \<and>
   ((\<forall>d\<in>set ds. truthy d) \<and> allTokens s = [] \<and> length ds = 101 \<longrightarrow>
      allTokens (run s (map (\<lambda>d. NewToken (event_of d)) ds)) = rev (tl ds) \<and>
      length (allTokens (run s (map (\<lambda>d. NewToken (event_of d)) ds))) = 100 \<and>
      (distinct (map (\<lambda>d. get_prop d ''token_address'') ds) \<longrightarrow>
         get_prop (hd ds) ''token_address'' \<notin>
           set (map (\<lambda>d. get_prop d ''token_address'')
                  (allTokens (run s (map (\<lambda>d. NewToken (event_of d)) ds))))))"
proof (intro conjI impI)
  assume "get_prop ev ''data'' = Inr d \<and> truthy d"
  then show "allTokens (snd (new_token s ev)) =
        (if length (d # allTokens s) > 100 then butlast (d # allTokens s) else d # allTokens s)"
    by (simp add: allTokens_new_token unshift_pop_def)
next
  assume a: "(\<forall>d\<in>set ds. truthy d) \<and> allTokens s = [] \<and> length ds = 101"
  then obtain d0 ds' where ds: "ds = d0 # ds'" and len: "length ds' = 100"
    by (cases ds) auto
  have "allTokens (run s (map (\<lambda>d. NewToken (event_of d)) ds)) = take 100 (rev ds @ allTokens s)"
    using a by (intro run_new_tokens) auto
  then show r: "allTokens (run s (map (\<lambda>d. NewToken (event_of d)) ds)) = rev (tl ds)"
    using a ds len by simp
  show "length (allTokens (run s (map (\<lambda>d. NewToken (event_of d)) ds))) = 100"
    unfolding r using ds len by simp
  assume "distinct (map (\<lambda>d. get_prop d ''token_address'') ds)"
  then show "get_prop (hd ds) ''token_address'' \<notin>
           set (map (\<lambda>d. get_prop d ''token_address'')
                  (allTokens (run s (map (\<lambda>d. NewToken (event_of d)) ds))))"
    unfolding r using ds by auto
qed

theorem new_token_fifo_bound_witness:
  "allTokens (run initial_state
      (map (\<lambda>d. NewToken (event_of d)) (map numbered [0..<101]))) = rev (map numbered [1..<101]) \<and>
   get_prop (numbered 0) ''token_address'' \<notin>
     set (map (\<lambda>d. get_prop d ''token_address'')
       (allTokens (run initial_state
          (map (\<lambda>d. NewToken (event_of d)) (map numbered [0..<101]))))) \<and>
   allTokens (snd (new_token initial_state (event_of (numbered 7)))) = [numbered 7]"
proof -
  let ?ds = "map numbered [0..<101]"
  have t: "\<forall>d\<in>set ?ds. truthy d"
    by (simp add: numbered_def)
  have e: "allTokens initial_state = []"
    by (simp add: initial_state_def)
  have l: "length ?ds = 101"
    by simp
  have dist: "distinct (map (\<lambda>d. get_prop d ''token_address'') ?ds)"
    by (simp add: distinct_map comp_def numbered_def inj_on_def)
  have tl: "tl ?ds = map numbered [1..<101]"
    by (simp add: upt_conv_Cons [of 0] del: upt_Suc)
  have hd: "hd ?ds = numbered 0"
    by (simp add: upt_conv_Cons [of 0] del: upt_Suc)
  have d: "get_prop (event_of (numbered 7)) ''data'' = Inr (numbered 7) \<and> truthy (numbered 7)"
    by (simp add: numbered_def)
  from new_token_fifo_bound [of "event_of (numbered 7)" "numbered 7" initial_state ?ds] d
  have one: "allTokens (snd (new_token initial_state (event_of (numbered 7)))) = [numbered 7]"
    by (simp add: e)
  from new_token_fifo_bound [of JUndefined JUndefined initial_state ?ds] t e l dist one
  show ?thesis
    unfolding tl hd by blast
qed

section \<open>Identity resolution\<close>

text \<open>
  C10. Addresses are compared with \<^verbatim>\<open>===\<close>, and \<^verbatim>\<open>undefined === undefined\<close>
  holds: when the collection (of records, none \<^verbatim>\<open>null\<close>) has a record without
  \<^verbatim>\<open>token_address\<close> and a \<^verbatim>\<open>tokens_updated\<close> item has none either, the
  item is not dropped: it is merged into the first such record.
\<close>

theorem undefined_address_matches:
  assumes "\<forall>t\<in>set (allTokens s). \<not> nullish t"
      and "\<exists>t\<in>set (allTokens s). get_prop t ''token_address'' = Inr JUndefined"
      and "get_prop item ''token_address'' = Inr JUndefined"
      and "get_prop event ''data'' = Inr (JArr [item] m)"
  shows "\<exists>idx<length (allTokens s).
           get_prop (allTokens s ! idx) ''token_address'' = Inr JUndefined \<and>
           (\<forall>j<idx. get_prop (allTokens s ! j) ''token_address'' \<noteq> Inr JUndefined) \<and>
           find_token (allTokens s) item = Inr (Some idx) \<and>
           allTokens (snd (tokens_updated s event)) =
             (allTokens s)[idx := spread2 (allTokens s ! idx) item]"
proof -
  have same: "same_address t item \<longleftrightarrow> get_prop t ''token_address'' = Inr JUndefined" for t
  proof (cases "get_prop t ''token_address''")
    case (Inl e)
    then show ?thesis by (simp add: same_address_def)
  next
    case (Inr a)
    then show ?thesis
      by (cases a) (simp_all add: same_address_def assms(3))
  qed
  have "\<not> nullish item"
    using assms(3) by (rule get_prop_Inr_not_nullish)
  moreover have "\<exists>t\<in>set (allTokens s). same_address t item"
    using assms(2) same by blast
  ultimately obtain idx where idx: "find_token (allTokens s) item = Inr (Some idx)"
    using find_token_match [OF assms(1)] by blast
  from find_token_Some [OF idx] have "idx < length (allTokens s)"
    "get_prop (allTokens s ! idx) ''token_address'' = Inr JUndefined"
    "\<forall>j<idx. get_prop (allTokens s ! j) ''token_address'' \<noteq> Inr JUndefined"
    using same by blast+
  moreover have "allTokens (snd (tokens_updated s event)) =
             (allTokens s)[idx := spread2 (allTokens s ! idx) item]"
    using idx assms(4) by (simp add: tokens_updated_def tokens_updated_item_def)
  ultimately show ?thesis
    using idx by blast
qed

theorem undefined_address_matches_witness:
  "\<exists>r. allTokens (snd (tokens_updated
       (initial_state\<lparr>allTokens := [JObj [''token_address'' \<mapsto> JStr ''A''],
                                     JObj [''price_sol'' \<mapsto> JNum 1]]\<rparr>)
       (event_of (JArr [JObj [''price_sol'' \<mapsto> JNum 2]] Map.empty)))) =
     [JObj [''token_address'' \<mapsto> JStr ''A''], JObj r] \<and> r ''price_sol'' = Some (JNum 2)"
proof -
  let ?a = "JObj [''token_address'' \<mapsto> JStr ''A'']"
  let ?b = "JObj [''price_sol'' \<mapsto> JNum 1]"
  let ?item = "JObj [''price_sol'' \<mapsto> JNum 2]"
  let ?s = "initial_state\<lparr>allTokens := [?a, ?b]\<rparr>"
  let ?ev = "event_of (JArr [?item] Map.empty)"
  have 1: "\<forall>t\<in>set (allTokens ?s). \<not> nullish t" by simp
  have 2: "\<exists>t\<in>set (allTokens ?s). get_prop t ''token_address'' = Inr JUndefined" by simp
  have 3: "get_prop ?item ''token_address'' = Inr JUndefined" by simp
  have 4: "get_prop ?ev ''data'' = Inr (JArr [?item] Map.empty)" by simp
  obtain idx where idx: "idx < length (allTokens ?s)"
      "get_prop (allTokens ?s ! idx) ''token_address'' = Inr JUndefined"
      "allTokens (snd (tokens_updated ?s ?ev)) =
         (allTokens ?s)[idx := spread2 (allTokens ?s ! idx) ?item]"
    using undefined_address_matches [OF 1 2 3 4] by blast
  have "idx = 1"
    using idx(1,2) by (cases idx) auto
  with idx(3) show ?thesis
    by (simp add: spread2_def)
qed

section \<open>Malformed snapshots and failed fetches\<close>

lemma allTokens_fetch_catch: "allTokens (snd (fetch_catch s)) = []"
  by (simp add: fetch_catch_def)

lemma fst_fetch_catch: "fst (fetch_catch s) = Returned"
  by (simp add: fetch_catch_def applyClientFilters_def renderTokens_def pageTokens_def js_slice_def)

text \<open>
  C5, as the code has it. An \<^verbatim>\<open>initial_data\<close> event whose \<^verbatim>\<open>data\<close> is not an
  array (also \<^verbatim>\<open>null\<close> or absent) leaves the whole state as it was, so the
  collection keeps its records. A bulk fetch that is rejected, or whose body does not
  lead to an array, or leads to an array with a \<^verbatim>\<open>null\<close> in it, leaves the
  empty collection, and the handler returns normally.
\<close>

theorem malformed_snapshot_and_failed_fetch:
  "((\<forall>xs m. get_prop event ''data'' \<noteq> Inr (JArr xs m)) \<longrightarrow> snd (initial_data s event) = s) \<and>
   allTokens (snd (fetchTokens s Rejected)) = [] \<and> fst (fetchTokens s Rejected) = Returned \<and>
   ((\<forall>xs m. fetched_tokens body \<noteq> Inr (JArr xs m)) \<longrightarrow>
      allTokens (snd (fetchTokens s (Resolved body))) = [] \<and>
      fst (fetchTokens s (Resolved body)) = Returned) \<and>
   (fetched_tokens body = Inr (JArr xs m) \<and> list_ex nullish xs \<longrightarrow>
      allTokens (snd (fetchTokens s (Resolved body))) = [] \<and>
      fst (fetchTokens s (Resolved body)) = Returned)"
proof (intro conjI impI)
  assume a: "\<forall>xs m. get_prop event ''data'' \<noteq> Inr (JArr xs m)"
  show "snd (initial_data s event) = s"
  proof (cases "get_prop event ''data''")
    case (Inl e)
    then show ?thesis by (simp add: initial_data_def)
  next
    case (Inr d)
    with a have "\<not> isArray d" by (cases d) auto
    with Inr show ?thesis by (simp add: initial_data_def)
  qed
next
  show "allTokens (snd (fetchTokens s Rejected)) = []"
    by (simp add: fetchTokens_def allTokens_fetch_catch)
  show "fst (fetchTokens s Rejected) = Returned"
    by (simp add: fetchTokens_def fst_fetch_catch)
next
  assume a: "\<forall>xs m. fetched_tokens body \<noteq> Inr (JArr xs m)"
  have "fetchTokens s (Resolved body) = fetch_catch s"
  proof (cases "fetched_tokens body")
    case (Inl e)
    then show ?thesis by (simp add: fetchTokens_def)
  next
    case (Inr v)
    with a have "\<not> isArray v" by (cases v) auto
    with Inr show ?thesis by (simp add: fetchTokens_def)
  qed
  then show "allTokens (snd (fetchTokens s (Resolved body))) = []"
    "fst (fetchTokens s (Resolved body)) = Returned"
    by (simp_all add: allTokens_fetch_catch fst_fetch_catch)
next
  assume "fetched_tokens body = Inr (JArr xs m) \<and> list_ex nullish xs"
  then have "fetchTokens s (Resolved body) = fetch_catch (s\<lparr>allTokens := xs\<rparr>)"
    by (simp add: fetchTokens_def)
  then show "allTokens (snd (fetchTokens s (Resolved body))) = []"
    "fst (fetchTokens s (Resolved body)) = Returned"
    by (simp_all add: allTokens_fetch_catch fst_fetch_catch)
qed

text \<open>
  C5 as stated fails for the snapshot push: with one record stored, an
  \<^verbatim>\<open>initial_data\<close> event carrying \<^verbatim>\<open>data: null\<close> does not leave the
  empty collection.
\<close>

theorem malformed_snapshot_counterexample:
  "allTokens (snd (initial_data
      (initial_state\<lparr>allTokens := [JObj [''token_address'' \<mapsto> JStr ''A'']]\<rparr>)
      (event_of JNull))) = [JObj [''token_address'' \<mapsto> JStr ''A'']] \<and>
   allTokens (snd (initial_data
      (initial_state\<lparr>allTokens := [JObj [''token_address'' \<mapsto> JStr ''A'']]\<rparr>)
      (event_of JNull))) \<noteq> []"
  by (simp add: initial_data_def)

theorem malformed_snapshot_and_failed_fetch_witness:
  "snd (initial_data (initial_state\<lparr>allTokens := [JObj [''token_address'' \<mapsto> JStr ''A'']]\<rparr>)
      (event_of (JStr ''oops''))) =
     initial_state\<lparr>allTokens := [JObj [''token_address'' \<mapsto> JStr ''A'']]\<rparr> \<and>
   allTokens (snd (fetchTokens
      (initial_state\<lparr>allTokens := [JObj [''token_address'' \<mapsto> JStr ''A'']]\<rparr>)
      (Resolved (JObj [''data'' \<mapsto> JNum 7])))) = [] \<and>
   allTokens (snd (fetchTokens
      (initial_state\<lparr>allTokens := [JObj [''token_address'' \<mapsto> JStr ''A'']]\<rparr>)
      (Resolved (JObj [''data'' \<mapsto> JArr [JObj Map.empty, JNull] Map.empty])))) = [] \<and>
   allTokens (snd (fetchTokens
      (initial_state\<lparr>allTokens := [JObj [''token_address'' \<mapsto> JStr ''A'']]\<rparr>)
      Rejected)) = []"
proof -
  let ?s = "initial_state\<lparr>allTokens := [JObj [''token_address'' \<mapsto> JStr ''A'']]\<rparr>"
  have 1: "\<forall>xs m. get_prop (event_of (JStr ''oops'')) ''data'' \<noteq> Inr (JArr xs m)"
    by simp
  have 2: "\<forall>xs m. fetched_tokens (JObj [''data'' \<mapsto> JNum 7]) \<noteq> Inr (JArr xs m)"
    by (simp add: fetched_tokens_def)
  have 3: "fetched_tokens (JObj [''data'' \<mapsto> JArr [JObj Map.empty, JNull] Map.empty]) =
             Inr (JArr [JObj Map.empty, JNull] Map.empty) \<and>
           list_ex nullish [JObj Map.empty, JNull]"
    by (simp add: fetched_tokens_def)
  from malformed_snapshot_and_failed_fetch
         [of "event_of (JStr ''oops'')" ?s "JObj [''data'' \<mapsto> JNum 7]" "[]" Map.empty] 1 2
       malformed_snapshot_and_failed_fetch
         [of JNull ?s "JObj [''data'' \<mapsto> JArr [JObj Map.empty, JNull] Map.empty]"
            "[JObj Map.empty, JNull]" Map.empty] 3
  show ?thesis by blast
qed

section \<open>What the patch events leave alone\<close>

lemma isArray_as_batch: "isArray d \<Longrightarrow> truthy d"
  by (cases d) simp_all

lemma allTokens_tokens_updated:
  "allTokens (snd (tokens_updated s event)) =
     (case get_prop event ''data'' of
        Inl e \<Rightarrow> allTokens s
      | Inr d \<Rightarrow> if isArray d then snd (forEach tokens_updated_item (as_batch d) (allTokens s))
                 else allTokens s)"
  by (auto simp: tokens_updated_def Let_def isArray_as_batch
      split: sum.splits prod.splits outcome.splits)

lemma allTokens_price_update:
  "allTokens (snd (price_update s event)) =
     (case get_prop event ''data'' of
        Inl e \<Rightarrow> allTokens s
      | Inr d \<Rightarrow> snd (forEach price_update_item (as_batch d) (allTokens s)))"
  by (auto simp: price_update_def Let_def split: sum.splits prod.splits outcome.splits)

lemma allTokens_volume_spike:
  "allTokens (snd (volume_spike s event)) =
     (case get_prop event ''data'' of
        Inl e \<Rightarrow> allTokens s
      | Inr d \<Rightarrow> snd (forEach volume_spike_item (as_batch d) (allTokens s)))"
  by (auto simp: volume_spike_def Let_def split: sum.splits prod.splits outcome.splits)

lemma get_prop_set_prop: "k \<noteq> k' \<Longrightarrow> get_prop (set_prop v k' x) k = get_prop v k"
  by (cases v) simp_all

lemma frames_price_update_item:
  "frames {''price_sol'', ''price_24hr_change''} price_update_item"
  unfolding frames_def
proof (intro allI impI)
  fix toks item toks'
  assume r: "price_update_item toks item = Inr toks'"
  show "length toks' = length toks \<and>
        (\<forall>j<length toks.
           (\<forall>k. k \<notin> {''price_sol'', ''price_24hr_change''} \<longrightarrow>
                get_prop (toks' ! j) k = get_prop (toks ! j) k) \<and>
           (\<not> same_address (toks ! j) item \<longrightarrow> toks' ! j = toks ! j))"
  proof (cases "find_token toks item")
    case (Inl e)
    with r show ?thesis by (simp add: price_update_item_def)
  next
    case (Inr found)
    show ?thesis
    proof (cases found)
      case None
      with r Inr show ?thesis by (simp add: price_update_item_def)
    next
      case (Some i)
      from find_token_Some [OF Inr [unfolded Some]]
      have i: "i < length toks" "same_address (toks ! i) item" by simp_all
      from r Inr Some i show ?thesis
        by (auto simp: price_update_item_def Let_def nth_list_update get_prop_set_prop
            split: if_splits sum.splits)
    qed
  qed
qed

lemma frames_volume_spike_item: "frames {''volume_sol''} volume_spike_item"
  unfolding frames_def
proof (intro allI impI)
  fix toks item toks'
  assume r: "volume_spike_item toks item = Inr toks'"
  show "length toks' = length toks \<and>
        (\<forall>j<length toks.
           (\<forall>k. k \<notin> {''volume_sol''} \<longrightarrow> get_prop (toks' ! j) k = get_prop (toks ! j) k) \<and>
           (\<not> same_address (toks ! j) item \<longrightarrow> toks' ! j = toks ! j))"
  proof (cases "find_token toks item")
    case (Inl e)
    with r show ?thesis by (simp add: volume_spike_item_def)
  next
    case (Inr found)
    show ?thesis
    proof (cases found)
      case None
      with r Inr show ?thesis by (simp add: volume_spike_item_def)
    next
      case (Some i)
      from find_token_Some [OF Inr [unfolded Some]]
      have i: "i < length toks" "same_address (toks ! i) item" by simp_all
      from r Inr Some i show ?thesis
        by (auto simp: volume_spike_item_def Let_def nth_list_update get_prop_set_prop
            split: if_splits sum.splits)
    qed
  qed
qed

lemma same_address_cong:
  "get_prop t' ''token_address'' = get_prop t ''token_address'' \<Longrightarrow>
     same_address t' item = same_address t item"
  by (simp add: same_address_def)

lemma forEach_frames:
  assumes "frames K body" and "''token_address'' \<notin> K"
  shows "length (snd (forEach body items toks)) = length toks \<and>
     (\<forall>j<length toks.
        (\<forall>k. k \<notin> K \<longrightarrow> get_prop (snd (forEach body items toks) ! j) k = get_prop (toks ! j) k) \<and>
        ((\<forall>item\<in>set items. \<not> same_address (toks ! j) item) \<longrightarrow>
           snd (forEach body items toks) ! j = toks ! j))"
proof (induction items arbitrary: toks)
  case Nil
  show ?case by simp
next
  case (Cons item items)
  show ?case
  proof (cases "body toks item")
    case (Inl e)
    then show ?thesis by simp
  next
    case (Inr t1)
    from assms(1) Inr have len: "length t1 = length toks"
      and same: "\<And>j k. j < length toks \<Longrightarrow> k \<notin> K \<Longrightarrow> get_prop (t1 ! j) k = get_prop (toks ! j) k"
      and keep: "\<And>j. j < length toks \<Longrightarrow> \<not> same_address (toks ! j) item \<Longrightarrow> t1 ! j = toks ! j"
      unfolding frames_def by blast+
    have addr: "same_address (t1 ! j) x = same_address (toks ! j) x" if "j < length toks" for j x
      using same [OF that assms(2)] by (rule same_address_cong)
    from Cons.IH [of t1] len Inr show ?thesis
      by (auto simp: same keep addr)
  qed
qed

text \<open>
  C7. A \<^verbatim>\<open>price_update\<close> event keeps the number of records, leaves every property
  other than \<^verbatim>\<open>price_sol\<close> and \<^verbatim>\<open>price_24hr_change\<close> of every record as
  it read before, and leaves every record untouched whose address no item of the event
  names. A \<^verbatim>\<open>volume_spike\<close> event does the same with \<^verbatim>\<open>volume_sol\<close> as the
  only property it may change.
\<close>

theorem ticks_touch_only_their_fields:
  assumes "get_prop event ''data'' = Inr d"
  shows "length (allTokens (snd (price_update s event))) = length (allTokens s) \<and>
     (\<forall>j<length (allTokens s).
        (\<forall>k. k \<notin> {''price_sol'', ''price_24hr_change''} \<longrightarrow>
           get_prop (allTokens (snd (price_update s event)) ! j) k = get_prop (allTokens s ! j) k) \<and>
        ((\<forall>item\<in>set (as_batch d). \<not> same_address (allTokens s ! j) item) \<longrightarrow>
           allTokens (snd (price_update s event)) ! j = allTokens s ! j)) \<and>
     length (allTokens (snd (volume_spike s event))) = length (allTokens s) \<and>
     (\<forall>j<length (allTokens s).
        (\<forall>k. k \<notin> {''volume_sol''} \<longrightarrow>
           get_prop (allTokens (snd (volume_spike s event)) ! j) k = get_prop (allTokens s ! j) k) \<and>
        ((\<forall>item\<in>set (as_batch d). \<not> same_address (allTokens s ! j) item) \<longrightarrow>
           allTokens (snd (volume_spike s event)) ! j = allTokens s ! j))"
proof -
  have p: "allTokens (snd (price_update s event)) =
      snd (forEach price_update_item (as_batch d) (allTokens s))"
    by (simp add: allTokens_price_update assms)
  have v: "allTokens (snd (volume_spike s event)) =
      snd (forEach volume_spike_item (as_batch d) (allTokens s))"
    by (simp add: allTokens_volume_spike assms)
  have 1: "''token_address'' \<notin> {''price_sol'', ''price_24hr_change''}"
    and 2: "''token_address'' \<notin> {''volume_sol''}"
    by simp_all
  show ?thesis
    unfolding p v
    using forEach_frames [OF frames_price_update_item 1, of "as_batch d" "allTokens s"]
      forEach_frames [OF frames_volume_spike_item 2, of "as_batch d" "allTokens s"]
    by blast
qed

theorem ticks_touch_only_their_fields_witness:
  "get_prop (allTokens (snd (price_update
      (initial_state\<lparr>allTokens :=
         [JObj [''token_address'' \<mapsto> JStr ''A'', ''price_sol'' \<mapsto> JNum 1,
                ''volume_sol'' \<mapsto> JNum 5],
          JObj [''token_address'' \<mapsto> JStr ''B'', ''price_sol'' \<mapsto> JNum 3]]\<rparr>)
      (event_of (JObj [''token_address'' \<mapsto> JStr ''A'', ''new_price'' \<mapsto> JNum 2,
                       ''change_percent'' \<mapsto> JNum 100])))) ! 0) ''volume_sol'' = Inr (JNum 5) \<and>
   allTokens (snd (price_update
      (initial_state\<lparr>allTokens :=
         [JObj [''token_address'' \<mapsto> JStr ''A'', ''price_sol'' \<mapsto> JNum 1,
                ''volume_sol'' \<mapsto> JNum 5],
          JObj [''token_address'' \<mapsto> JStr ''B'', ''price_sol'' \<mapsto> JNum 3]]\<rparr>)
      (event_of (JObj [''token_address'' \<mapsto> JStr ''A'', ''new_price'' \<mapsto> JNum 2,
                       ''change_percent'' \<mapsto> JNum 100])))) ! 1 =
     JObj [''token_address'' \<mapsto> JStr ''B'', ''price_sol'' \<mapsto> JNum 3] \<and>
   get_prop (allTokens (snd (price_update
      (initial_state\<lparr>allTokens :=
         [JObj [''token_address'' \<mapsto> JStr ''A'', ''price_sol'' \<mapsto> JNum 1,
                ''volume_sol'' \<mapsto> JNum 5],
          JObj [''token_address'' \<mapsto> JStr ''B'', ''price_sol'' \<mapsto> JNum 3]]\<rparr>)
      (event_of (JObj [''token_address'' \<mapsto> JStr ''A'', ''new_price'' \<mapsto> JNum 2,
                       ''change_percent'' \<mapsto> JNum 100])))) ! 0) ''price_sol'' = Inr (JNum 2)"
proof -
  let ?a = "JObj [''token_address'' \<mapsto> JStr ''A'', ''price_sol'' \<mapsto> JNum 1,
                ''volume_sol'' \<mapsto> JNum 5]"
  let ?b = "JObj [''token_address'' \<mapsto> JStr ''B'', ''price_sol'' \<mapsto> JNum 3]"
  let ?item = "JObj [''token_address'' \<mapsto> JStr ''A'', ''new_price'' \<mapsto> JNum 2,
                       ''change_percent'' \<mapsto> JNum 100]"
  let ?s = "initial_state\<lparr>allTokens := [?a, ?b]\<rparr>"
  let ?ev = "event_of ?item"
  let ?toks' = "allTokens (snd (price_update ?s ?ev))"
  have d: "get_prop ?ev ''data'' = Inr ?item" by simp
  have len0: "0 < length (allTokens ?s)" and len1: "1 < length (allTokens ?s)" by simp_all
  note fr = ticks_touch_only_their_fields [OF d, of ?s, THEN conjunct2, THEN conjunct1, THEN spec, THEN mp]
  have k: "''volume_sol'' \<notin> {''price_sol'', ''price_24hr_change''}" by simp
  have "get_prop (?toks' ! 0) ''volume_sol'' = get_prop (allTokens ?s ! 0) ''volume_sol''"
    using fr [OF len0, THEN conjunct1, THEN spec, THEN mp, OF k] .
  then have 1: "get_prop (?toks' ! 0) ''volume_sol'' = Inr (JNum 5)"
    by simp
  have nm: "\<forall>item\<in>set (as_batch ?item). \<not> same_address (allTokens ?s ! 1) item"
    by (simp add: same_address_def)
  have "?toks' ! 1 = allTokens ?s ! 1"
    using fr [OF len1, THEN conjunct2, THEN mp, OF nm] .
  then have 2: "?toks' ! 1 = ?b"
    by simp
  have 3: "get_prop (?toks' ! 0) ''price_sol'' = Inr (JNum 2)"
    by (simp add: allTokens_price_update price_update_item_def)
  from 1 2 3 show ?thesis by blast
qed

lemma frames_tokens_updated_item: "frames UNIV tokens_updated_item"
  unfolding frames_def
proof (intro allI impI)
  fix toks item toks'
  assume r: "tokens_updated_item toks item = Inr toks'"
  show "length toks' = length toks \<and>
        (\<forall>j<length toks.
           (\<forall>k. k \<notin> UNIV \<longrightarrow> get_prop (toks' ! j) k = get_prop (toks ! j) k) \<and>
           (\<not> same_address (toks ! j) item \<longrightarrow> toks' ! j = toks ! j))"
  proof (cases "find_token toks item")
    case (Inl e)
    with r show ?thesis by (simp add: tokens_updated_item_def)
  next
    case (Inr found)
    show ?thesis
    proof (cases found)
      case None
      with r Inr show ?thesis by (simp add: tokens_updated_item_def)
    next
      case (Some i)
      from find_token_Some [OF Inr [unfolded Some]]
      have i: "i < length toks" "same_address (toks ! i) item" by simp_all
      from r Inr Some i show ?thesis
        by (auto simp: tokens_updated_item_def nth_list_update)
    qed
  qed
qed

lemma frames_length:
  "frames K body \<Longrightarrow> length (snd (forEach body items toks)) = length toks"
proof (induction items arbitrary: toks)
  case Nil
  show ?case by simp
next
  case (Cons item items)
  then show ?case
    by (cases "body toks item") (auto simp: frames_def)
qed

lemma frames_no_match:
  assumes "frames K body" and "\<forall>t\<in>set toks. \<not> same_address t item"
  shows "body toks item = Inr toks \<or> body toks item = Inl TypeError"
proof (cases "body toks item")
  case (Inl e)
  then show ?thesis by simp
next
  case (Inr toks')
  with assms(1) have len: "length toks' = length toks"
    and keep: "\<And>j. j < length toks \<Longrightarrow> \<not> same_address (toks ! j) item \<Longrightarrow> toks' ! j = toks ! j"
    unfolding frames_def by blast+
  have "toks' = toks"
    using len keep assms(2) by (intro nth_equalityI) auto
  with Inr show ?thesis by simp
qed

lemma forEach_drops:
  assumes "frames K body" and "\<forall>t\<in>set toks. \<not> same_address t item"
  shows "forEach body (item # items) toks = forEach body items toks \<or>
         forEach body (item # items) toks = (Thrown, toks)"
  using frames_no_match [OF assms] by auto

lemma forEach_no_match:
  assumes "frames K body"
  shows "\<forall>item\<in>set items. \<forall>t\<in>set toks. \<not> same_address t item \<Longrightarrow>
           snd (forEach body items toks) = toks"
proof (induction items)
  case Nil
  show ?case by simp
next
  case (Cons item items)
  then have "\<forall>t\<in>set toks. \<not> same_address t item" by simp
  from frames_no_match [OF assms this] Cons show ?case
    by auto
qed

text \<open>
  C3. The three patch events (\<^verbatim>\<open>tokens_updated\<close>, \<^verbatim>\<open>price_update\<close>,
  \<^verbatim>\<open>volume_spike\<close>) never change the number of records. An item whose address
  matches no stored record is dropped: the loop goes on with the collection as it was
  (or, when reading the item or a record throws, stops with the collection as it was).
  An event none of whose items matches a stored record leaves the collection as it was.
\<close>

theorem patches_never_create_records:
  "length (allTokens (snd (tokens_updated s event))) = length (allTokens s) \<and>
   length (allTokens (snd (price_update s event))) = length (allTokens s) \<and>
   length (allTokens (snd (volume_spike s event))) = length (allTokens s) \<and>
   ((\<forall>t\<in>set toks. \<not> same_address t item) \<longrightarrow>
      (forEach tokens_updated_item (item # items) toks = forEach tokens_updated_item items toks \<or>
       forEach tokens_updated_item (item # items) toks = (Thrown, toks)) \<and>
      (forEach price_update_item (item # items) toks = forEach price_update_item items toks \<or>
       forEach price_update_item (item # items) toks = (Thrown, toks)) \<and>
      (forEach volume_spike_item (item # items) toks = forEach volume_spike_item items toks \<or>
       forEach volume_spike_item (item # items) toks = (Thrown, toks))) \<and>
   (get_prop event ''data'' = Inr d \<and>
    (\<forall>item\<in>set (as_batch d). \<forall>t\<in>set (allTokens s). \<not> same_address t item) \<longrightarrow>
      allTokens (snd (tokens_updated s event)) = allTokens s \<and>
      allTokens (snd (price_update s event)) = allTokens s \<and>
      allTokens (snd (volume_spike s event)) = allTokens s)"
proof -
  note fr = frames_tokens_updated_item frames_price_update_item frames_volume_spike_item
  have 1: "length (allTokens (snd (tokens_updated s event))) = length (allTokens s)"
    by (simp add: allTokens_tokens_updated frames_length [OF fr(1)] split: sum.splits)
  have 2: "length (allTokens (snd (price_update s event))) = length (allTokens s)"
    by (simp add: allTokens_price_update frames_length [OF fr(2)] split: sum.splits)
  have 3: "length (allTokens (snd (volume_spike s event))) = length (allTokens s)"
    by (simp add: allTokens_volume_spike frames_length [OF fr(3)] split: sum.splits)
  have 4: "(forEach tokens_updated_item (item # items) toks = forEach tokens_updated_item items toks \<or>
       forEach tokens_updated_item (item # items) toks = (Thrown, toks)) \<and>
      (forEach price_update_item (item # items) toks = forEach price_update_item items toks \<or>
       forEach price_update_item (item # items) toks = (Thrown, toks)) \<and>
      (forEach volume_spike_item (item # items) toks = forEach volume_spike_item items toks \<or>
       forEach volume_spike_item (item # items) toks = (Thrown, toks))"
    if "\<forall>t\<in>set toks. \<not> same_address t item"
    using forEach_drops [OF fr(1) that] forEach_drops [OF fr(2) that] forEach_drops [OF fr(3) that]
    by blast
  have 5: "allTokens (snd (tokens_updated s event)) = allTokens s \<and>
      allTokens (snd (price_update s event)) = allTokens s \<and>
      allTokens (snd (volume_spike s event)) = allTokens s"
    if d: "get_prop event ''data'' = Inr d"
      and nm: "\<forall>item\<in>set (as_batch d). \<forall>t\<in>set (allTokens s). \<not> same_address t item"
    using forEach_no_match [OF fr(1) nm] forEach_no_match [OF fr(2) nm]
      forEach_no_match [OF fr(3) nm]
    by (simp add: allTokens_tokens_updated allTokens_price_update allTokens_volume_spike d)
  from 1 2 3 4 5 show ?thesis by blast
qed

theorem patches_never_create_records_witness:
  "allTokens (snd (tokens_updated
      (initial_state\<lparr>allTokens := [JObj [''token_address'' \<mapsto> JStr ''A'']]\<rparr>)
      (event_of (JArr [JObj [''token_address'' \<mapsto> JStr ''B'', ''price_sol'' \<mapsto> JNum 2]]
         Map.empty)))) = [JObj [''token_address'' \<mapsto> JStr ''A'']] \<and>
   allTokens (snd (price_update
      (initial_state\<lparr>allTokens := [JObj [''token_address'' \<mapsto> JStr ''A'']]\<rparr>)
      (event_of (JArr [JObj [''token_address'' \<mapsto> JStr ''B'', ''price_sol'' \<mapsto> JNum 2]]
         Map.empty)))) = [JObj [''token_address'' \<mapsto> JStr ''A'']] \<and>
   allTokens (snd (volume_spike
      (initial_state\<lparr>allTokens := [JObj [''token_address'' \<mapsto> JStr ''A'']]\<rparr>)
      (event_of (JArr [JObj [''token_address'' \<mapsto> JStr ''B'', ''price_sol'' \<mapsto> JNum 2]]
         Map.empty)))) = [JObj [''token_address'' \<mapsto> JStr ''A'']]"
proof -
  let ?item = "JObj [''token_address'' \<mapsto> JStr ''B'', ''price_sol'' \<mapsto> JNum 2]"
  let ?s = "initial_state\<lparr>allTokens := [JObj [''token_address'' \<mapsto> JStr ''A'']]\<rparr>"
  let ?ev = "event_of (JArr [?item] Map.empty)"
  have d: "get_prop ?ev ''data'' = Inr (JArr [?item] Map.empty)" by simp
  have nm: "\<forall>item\<in>set (as_batch (JArr [?item] Map.empty)).
              \<forall>t\<in>set (allTokens ?s). \<not> same_address t item"
    by (simp add: same_address_def)
  have a: "allTokens ?s = [JObj [''token_address'' \<mapsto> JStr ''A'']]" by simp
  from patches_never_create_records [of ?s ?ev "[]" JNull "[]" "JArr [?item] Map.empty"] d nm
  show ?thesis unfolding a by blast
qed

section \<open>Pagination\<close>

lemma totalPages_div: "totalPages s = (int (length (filteredTokens s)) + 24) div 25"
proof -
  have "\<lceil>(of_int (int n) :: rat) / of_int 25\<rceil> = (int n + 24) div 25" for n
    unfolding ceiling_divide_eq_div by linarith
  from this [of "length (filteredTokens s)"] show ?thesis
    by (simp add: totalPages_def tokensPerPage_def)
qed

lemma js_slice_page:
  assumes "0 \<le> start" and "0 \<le> n"
  shows "js_slice xs start (start + n) = take (nat n) (drop (nat start) xs)"
proof (cases "start < int (length xs)")
  case True
  with assms show ?thesis
    by (auto simp: js_slice_def Let_def min_def intro: take_all [symmetric, THEN trans] )
next
  case False
  with assms show ?thesis
    by (simp add: js_slice_def Let_def min_def)
qed

lemma pageTokens_take_drop:
  assumes "1 \<le> currentPage s"
  shows "pageTokens s = take 25 (drop (25 * nat (currentPage s - 1)) (filteredTokens s))"
proof -
  have "nat ((currentPage s - 1) * 25) = 25 * nat (currentPage s - 1)"
    using assms by (simp add: nat_mult_distrib)
  then show ?thesis
    using assms js_slice_page [of "(currentPage s - 1) * 25" 25 "filteredTokens s"]
    by (simp add: pageTokens_def tokensPerPage_def Let_def)
qed

lemma currentPage_renderTokens: "currentPage (snd (renderTokens s)) = currentPage s"
  by (simp add: renderTokens_def updateStats_def updatePagination_def Let_def)

lemma currentPage_applyClientFilters: "currentPage (snd (applyClientFilters s)) = currentPage s"
  by (simp add: applyClientFilters_def currentPage_renderTokens)

lemma currentPage_dispatch: "1 \<le> currentPage s \<Longrightarrow> 1 \<le> currentPage (snd (dispatch s e))"
proof (cases e)
  case (FetchSettled r)
  assume "1 \<le> currentPage s"
  then show ?thesis
    unfolding FetchSettled
    by (auto simp: fetchTokens_def fetch_catch_def currentPage_applyClientFilters
        split: fetch_result.splits sum.splits prod.splits outcome.splits
        dest: arg_cong [where f = "\<lambda>p. currentPage (snd p)"])
qed (auto simp: initial_data_def tokens_updated_def price_update_def volume_spike_def
       new_token_def prevPage_def nextPage_def applyFilters_def Let_def
       currentPage_applyClientFilters
       currentPage_renderTokens
       split: sum.splits prod.splits outcome.splits)

lemma currentPage_run: "1 \<le> currentPage s \<Longrightarrow> 1 \<le> currentPage (run s es)"
  by (induction es arbitrary: s) (simp_all add: currentPage_dispatch)

text \<open>
  C6. With \<open>n\<close> records in the working sequence and the current page \<open>p \<ge> 1\<close> (which
  holds in every state the script reaches), \<^verbatim>\<open>totalPages\<close> is the ceiling of
  \<open>n / 25\<close>, that is the one integer \<open>t\<close> with \<open>25 (t - 1) < n \<le> 25 t\<close>, and the page
  shown is the slice from \<open>25 (p - 1)\<close> up to \<open>25 p\<close> of the working sequence;
  \<^verbatim>\<open>renderTokens\<close> writes that page and the pair \<open>(p, totalPages)\<close> when the page
  is not empty and the row of each of its records can be built (the record is not
  \<^verbatim>\<open>null\<close> and none of the fields shown throws when converted to a string). With
  26 records there are 2 pages, page 1 has 25 records and page 2 has 1.
\<close>

theorem pagination_of_working_sequence:
  assumes "1 \<le> currentPage s"
  shows "25 * (totalPages s - 1) < int (length (filteredTokens s)) \<and>
     int (length (filteredTokens s)) \<le> 25 * totalPages s \<and>
     pageTokens s = take 25 (drop (25 * nat (currentPage s - 1)) (filteredTokens s)) \<and>
     length (pageTokens s) = min 25 (length (filteredTokens s) - 25 * nat (currentPage s - 1)) \<and>
     (\<forall>i<length (pageTokens s).
        pageTokens s ! i = filteredTokens s ! (25 * nat (currentPage s - 1) + i)) \<and>
     (pageTokens s \<noteq> [] \<and> list_all row_renders (pageTokens s) \<longrightarrow>
        rows (snd (renderTokens s)) = pageTokens s \<and>
        pageInfo (snd (renderTokens s)) = (currentPage s, totalPages s)) \<and>
     (length (filteredTokens s) = 26 \<longrightarrow>
        totalPages s = 2 \<and>
        (currentPage s = 1 \<longrightarrow> length (pageTokens s) = 25) \<and>
        (currentPage s = 2 \<longrightarrow> length (pageTokens s) = 1))"
proof -
  note tp = totalPages_div [of s]
  note pt = pageTokens_take_drop [OF assms]
  have 1: "25 * (totalPages s - 1) < int (length (filteredTokens s))"
    unfolding tp by presburger
  have 2: "int (length (filteredTokens s)) \<le> 25 * totalPages s"
    unfolding tp by presburger
  have 3: "length (pageTokens s) =
      min 25 (length (filteredTokens s) - 25 * nat (currentPage s - 1))"
    unfolding pt by (simp add: min.commute)
  have 4: "\<forall>i<length (pageTokens s).
        pageTokens s ! i = filteredTokens s ! (25 * nat (currentPage s - 1) + i)"
    unfolding pt by (auto simp: nth_drop)
  have 5: "rows (snd (renderTokens s)) = pageTokens s \<and>
        pageInfo (snd (renderTokens s)) = (currentPage s, totalPages s)"
    if "pageTokens s \<noteq> [] \<and> list_all row_renders (pageTokens s)"
    using that
    by (simp add: renderTokens_def updateStats_def updatePagination_def Let_def
        pageTokens_def totalPages_def)
  have 6: "totalPages s = 2 \<and>
        (currentPage s = 1 \<longrightarrow> length (pageTokens s) = 25) \<and>
        (currentPage s = 2 \<longrightarrow> length (pageTokens s) = 1)"
    if "length (filteredTokens s) = 26"
    using that unfolding 3 by (simp add: tp)
  from 1 2 pt 3 4 5 6 show ?thesis by blast
qed

theorem pagination_of_working_sequence_witness:
  "length (pageTokens (initial_state\<lparr>filteredTokens := map numbered [0..<26]\<rparr>)) = 25 \<and>
   totalPages (initial_state\<lparr>filteredTokens := map numbered [0..<26]\<rparr>) = 2 \<and>
   pageTokens (initial_state\<lparr>filteredTokens := map numbered [0..<26], currentPage := 2\<rparr>) =
     [numbered 25] \<and>
   rows (snd (renderTokens
     (initial_state\<lparr>filteredTokens := map numbered [0..<26], currentPage := 2\<rparr>))) =
     [numbered 25] \<and>
   pageInfo (snd (renderTokens
     (initial_state\<lparr>filteredTokens := map numbered [0..<26], currentPage := 2\<rparr>))) = (2, 2)"
proof -
  let ?s1 = "initial_state\<lparr>filteredTokens := map numbered [0..<26]\<rparr>"
  let ?s2 = "initial_state\<lparr>filteredTokens := map numbered [0..<26], currentPage := 2\<rparr>"
  have c1: "1 \<le> currentPage ?s1" and c2: "1 \<le> currentPage ?s2"
    by (simp_all add: initial_state_def)
  have p1: "currentPage ?s1 = 1" and p2: "currentPage ?s2 = 2"
    by (simp_all add: initial_state_def)
  have l1: "length (filteredTokens ?s1) = 26" and l2: "length (filteredTokens ?s2) = 26"
    by simp_all
  from pagination_of_working_sequence [OF c1] l1 p1
  have a: "length (pageTokens ?s1) = 25" "totalPages ?s1 = 2"
    by blast+
  from pagination_of_working_sequence [OF c2]
  have "pageTokens ?s2 = take 25 (drop (25 * nat (currentPage ?s2 - 1)) (filteredTokens ?s2))"
    by blast
  then have b: "pageTokens ?s2 = [numbered 25]"
    unfolding p2 by (simp add: drop_map)
  have "row_renders (numbered 25)"
    by (simp add: row_renders_def numbered_def field_def or_else_def formatNumber_returns_def)
  with b have r: "pageTokens ?s2 \<noteq> [] \<and> list_all row_renders (pageTokens ?s2)"
    by simp
  from pagination_of_working_sequence [OF c2] l2 r
  have c: "rows (snd (renderTokens ?s2)) = pageTokens ?s2"
    "pageInfo (snd (renderTokens ?s2)) = (currentPage ?s2, 2)"
    by auto
  from a b c show ?thesis
    unfolding p2 by simp
qed

section \<open>Malformed items in a batch\<close>

lemma str_of_nat_digits: "\<forall>c\<in>set (str_of_nat n). (of_char c :: nat) < 58"
proof (induction n rule: str_of_nat.induct)
  case (1 n)
  show ?case
  proof (cases "n < 10")
    case True
    then show ?thesis
      by (subst str_of_nat.simps) simp
  next
    case False
    have "n mod 10 < 10" by simp
    then have "(48 + n mod 10) mod 256 < 58"
      by linarith
    with False 1 show ?thesis
      by (subst str_of_nat.simps) simp
  qed
qed

lemma str_of_nat_not_name: "str_of_nat n \<noteq> ''token_address''"
proof
  assume "str_of_nat n = ''token_address''"
  then have "CHR ''t'' \<in> set (str_of_nat n)" by simp
  with str_of_nat_digits [of n] have "(of_char CHR ''t'' :: nat) < 58" by blast
  then show False by simp
qed

lemma indexed_not_name: "indexed xs ''token_address'' = None"
proof -
  have "''token_address'' \<notin> set (map str_of_nat [0..<length xs])"
  proof
    assume "''token_address'' \<in> set (map str_of_nat [0..<length xs])"
    then obtain n where "''token_address'' = str_of_nat n"
      unfolding set_map ..
    with str_of_nat_not_name [of n] show False by simp
  qed
  then show ?thesis
    unfolding indexed_def map_of_eq_None_iff by (auto dest: set_zip_leftD)
qed

lemma get_prop_own_props:
  "\<not> nullish v \<Longrightarrow>
     get_prop v ''token_address'' =
       Inr (case own_props v ''token_address'' of None \<Rightarrow> JUndefined | Some x \<Rightarrow> x)"
  by (cases v) (simp_all add: indexed_not_name map_add_def split: option.splits)

lemma strict_eq_eq: "strict_eq a b \<Longrightarrow> a = b"
  by (cases a; cases b) simp_all

lemma get_prop_spread2:
  assumes "same_address t item"
  shows "get_prop (spread2 t item) ''token_address'' = get_prop t ''token_address''"
proof -
  from assms obtain a b where a: "get_prop t ''token_address'' = Inr a"
    and b: "get_prop item ''token_address'' = Inr b" and eq: "strict_eq a b"
    by (auto simp: same_address_def split: sum.splits)
  have nn: "\<not> nullish t" "\<not> nullish item"
    using a b by (auto dest: get_prop_Inr_not_nullish)
  have ab: "a = b" using eq by (rule strict_eq_eq)
  show ?thesis
  proof (cases "own_props item ''token_address''")
    case None
    with a get_prop_own_props [OF nn(1)] show ?thesis
      by (simp add: spread2_def map_add_def)
  next
    case (Some x)
    with b get_prop_own_props [OF nn(2)] have "x = b" by simp
    with Some a ab show ?thesis
      by (simp add: spread2_def map_add_def)
  qed
qed

lemma steady_frames:
  assumes fr: "frames K body" and k: "''token_address'' \<notin> K"
    and "def": "\<And>toks item. \<forall>t\<in>set toks. \<not> nullish t \<Longrightarrow> \<not> nullish item \<Longrightarrow>
                 \<exists>t1. body toks item = Inr t1"
  shows "steady body"
  unfolding steady_def
proof (intro allI impI)
  fix toks item
  assume "(\<forall>t\<in>set toks. \<not> nullish t) \<and> \<not> nullish item"
  then obtain t1 where t1: "body toks item = Inr t1"
    using "def" by blast
  with fr k have "length t1 = length toks \<and>
           (\<forall>j<length toks.
              get_prop (t1 ! j) ''token_address'' = get_prop (toks ! j) ''token_address'')"
    unfolding frames_def by blast
  with t1 show "\<exists>t1. body toks item = Inr t1 \<and> length t1 = length toks \<and>
           (\<forall>j<length toks.
              get_prop (t1 ! j) ''token_address'' = get_prop (toks ! j) ''token_address'')"
    by blast
qed

lemma steady_price_update_item: "steady price_update_item"
proof (rule steady_frames [OF frames_price_update_item])
  show "''token_address'' \<notin> {''price_sol'', ''price_24hr_change''}" by simp
next
  fix toks item
  assume nn: "\<forall>t\<in>set toks. \<not> nullish t" "\<not> nullish item"
  obtain r where r: "find_token toks item = Inr r"
    using find_token_defined [OF nn] by blast
  obtain p c where "get_prop item ''new_price'' = Inr p" "get_prop item ''change_percent'' = Inr c"
    using get_prop_not_nullish [OF nn(2)] by blast
  with r show "\<exists>t1. price_update_item toks item = Inr t1"
    by (cases r) (simp_all add: price_update_item_def Let_def)
qed

lemma steady_volume_spike_item: "steady volume_spike_item"
proof (rule steady_frames [OF frames_volume_spike_item])
  show "''token_address'' \<notin> {''volume_sol''}" by simp
next
  fix toks item
  assume nn: "\<forall>t\<in>set toks. \<not> nullish t" "\<not> nullish item"
  obtain r where r: "find_token toks item = Inr r"
    using find_token_defined [OF nn] by blast
  obtain v where "get_prop item ''new_volume'' = Inr v"
    using get_prop_not_nullish [OF nn(2)] by blast
  with r show "\<exists>t1. volume_spike_item toks item = Inr t1"
    by (cases r) (simp_all add: volume_spike_item_def Let_def)
qed

lemma steady_tokens_updated_item: "steady tokens_updated_item"
  unfolding steady_def
proof (intro allI impI)
  fix toks item
  assume "(\<forall>t\<in>set toks. \<not> nullish t) \<and> \<not> nullish item"
  then obtain r where r: "find_token toks item = Inr r"
    using find_token_defined by blast
  show "\<exists>t1. tokens_updated_item toks item = Inr t1 \<and> length t1 = length toks \<and>
           (\<forall>j<length toks.
              get_prop (t1 ! j) ''token_address'' = get_prop (toks ! j) ''token_address'')"
  proof (cases r)
    case None
    with r show ?thesis by (simp add: tokens_updated_item_def)
  next
    case (Some i)
    from find_token_Some [OF r [unfolded Some]]
    have i: "i < length toks" "same_address (toks ! i) item" by simp_all
    from r Some i show ?thesis
      by (simp add: tokens_updated_item_def nth_list_update get_prop_spread2)
  qed
qed

lemma forEach_append:
  "forEach body (xs @ ys) toks =
     (case forEach body xs toks of
        (Thrown, t) \<Rightarrow> (Thrown, t)
      | (Returned, t) \<Rightarrow> forEach body ys t)"
  by (induction xs arbitrary: toks) (simp_all split: sum.splits)

lemma not_nullish_nth:
  assumes "\<forall>t\<in>set toks. \<not> nullish t" and "length t1 = length toks"
    and "\<forall>j<length toks. get_prop (t1 ! j) ''token_address'' = get_prop (toks ! j) ''token_address''"
  shows "\<forall>t\<in>set t1. \<not> nullish t"
proof
  fix t
  assume "t \<in> set t1"
  then obtain j where j: "j < length t1" "t = t1 ! j"
    by (auto simp: in_set_conv_nth)
  with assms have "\<not> nullish (toks ! j)"
    by simp
  then obtain a where "get_prop (toks ! j) ''token_address'' = Inr a"
    using get_prop_not_nullish by blast
  with assms j have "get_prop t ''token_address'' = Inr a"
    by simp
  then show "\<not> nullish t"
    by (rule get_prop_Inr_not_nullish)
qed

lemma forEach_steady:
  assumes "steady body"
  shows "\<forall>t\<in>set toks. \<not> nullish t \<Longrightarrow> \<forall>item\<in>set items. \<not> nullish item \<Longrightarrow>
     \<exists>t1. forEach body items toks = (Returned, t1) \<and> length t1 = length toks \<and>
       (\<forall>j<length toks.
          get_prop (t1 ! j) ''token_address'' = get_prop (toks ! j) ''token_address'')"
proof (induction items arbitrary: toks)
  case Nil
  show ?case by simp
next
  case (Cons item items)
  from assms Cons.prems obtain t1 where t1: "body toks item = Inr t1" "length t1 = length toks"
    "\<forall>j<length toks. get_prop (t1 ! j) ''token_address'' = get_prop (toks ! j) ''token_address''"
    unfolding steady_def by (metis list.set_intros(1))
  have "\<forall>t\<in>set t1. \<not> nullish t"
    using not_nullish_nth [OF Cons.prems(1) t1(2,3)] .
  moreover have "\<forall>item\<in>set items. \<not> nullish item"
    using Cons.prems(2) by simp
  ultimately obtain t2 where t2: "forEach body items t1 = (Returned, t2)" "length t2 = length t1"
    "\<forall>j<length t1. get_prop (t2 ! j) ''token_address'' = get_prop (t1 ! j) ''token_address''"
    using Cons.IH by blast
  from t1 t2 show ?case by simp
qed

lemma no_match_nth:
  assumes "\<forall>t\<in>set toks. \<not> same_address t bad" and "length t1 = length toks"
    and "\<forall>j<length toks. get_prop (t1 ! j) ''token_address'' = get_prop (toks ! j) ''token_address''"
  shows "\<forall>t\<in>set t1. \<not> same_address t bad"
proof
  fix t
  assume "t \<in> set t1"
  then obtain j where j: "j < length t1" "t = t1 ! j"
    by (auto simp: in_set_conv_nth)
  with assms have "same_address t bad = same_address (toks ! j) bad"
    by (intro same_address_cong) simp
  with assms j show "\<not> same_address t bad"
    by simp
qed

lemma forEach_skips:
  assumes st: "steady body" and fr: "frames K body"
    and store: "\<forall>t\<in>set toks. \<not> nullish t"
    and pre: "\<forall>item\<in>set pre. \<not> nullish item"
    and bad: "\<not> nullish bad" "\<forall>t\<in>set toks. \<not> same_address t bad"
  shows "forEach body (pre @ bad # post) toks = forEach body (pre @ post) toks"
proof -
  obtain t1 where t1: "forEach body pre toks = (Returned, t1)" "length t1 = length toks"
    "\<forall>j<length toks. get_prop (t1 ! j) ''token_address'' = get_prop (toks ! j) ''token_address''"
    using forEach_steady [OF st store pre] by blast
  have nn: "\<forall>t\<in>set t1. \<not> nullish t"
    using not_nullish_nth [OF store t1(2,3)] .
  have nm: "\<forall>t\<in>set t1. \<not> same_address t bad"
    using no_match_nth [OF bad(2) t1(2,3)] .
  obtain t2 where "body t1 bad = Inr t2"
    using st nn bad(1) unfolding steady_def by blast
  with frames_no_match [OF fr nm] have "body t1 bad = Inr t1"
    by simp
  then show ?thesis
    by (simp add: forEach_append t1(1))
qed

lemma forEach_null_item:
  assumes st: "steady body"
    and store: "\<forall>t\<in>set toks. \<not> nullish t"
    and pre: "\<forall>item\<in>set pre. \<not> nullish item"
    and thrown: "\<And>t1. length t1 = length toks \<Longrightarrow> body t1 bad = Inl TypeError"
  shows "forEach body (pre @ bad # post) toks = (Thrown, snd (forEach body pre toks))"
proof -
  obtain t1 where t1: "forEach body pre toks = (Returned, t1)" "length t1 = length toks"
    using forEach_steady [OF st store pre] by blast
  with thrown [of t1] show ?thesis
    by (simp add: forEach_append)
qed

lemma find_token_null_item:
  assumes "toks \<noteq> []" and "nullish bad"
  shows "find_token toks bad = Inl TypeError"
proof (cases toks)
  case Nil
  with assms show ?thesis by simp
next
  case (Cons t ts)
  from assms(2) have "get_prop bad ''token_address'' = Inl TypeError"
    by (cases bad) simp_all
  then show ?thesis
    unfolding Cons by (simp split: sum.splits)
qed

lemma tokens_updated_batch:
  "get_prop event ''data'' = Inr (JArr items m) \<Longrightarrow>
   tokens_updated s event =
     (case forEach tokens_updated_item items (allTokens s) of
        (Thrown, toks) \<Rightarrow> (Thrown, s\<lparr>updateCount := updateCount s + 1, allTokens := toks\<rparr>)
      | (Returned, toks) \<Rightarrow>
          applyClientFilters (s\<lparr>updateCount := updateCount s + 1, allTokens := toks\<rparr>))"
  by (simp add: tokens_updated_def Let_def split: prod.splits outcome.splits)

lemma price_update_batch:
  "get_prop event ''data'' = Inr (JArr items m) \<Longrightarrow>
   price_update s event =
     (case forEach price_update_item items (allTokens s) of
        (Thrown, toks) \<Rightarrow> (Thrown, s\<lparr>updateCount := updateCount s + 1, allTokens := toks\<rparr>)
      | (Returned, toks) \<Rightarrow>
          applyClientFilters (s\<lparr>updateCount := updateCount s + 1, allTokens := toks\<rparr>))"
  by (simp add: price_update_def Let_def split: prod.splits outcome.splits)

lemma volume_spike_batch:
  "get_prop event ''data'' = Inr (JArr items m) \<Longrightarrow>
   volume_spike s event =
     (case forEach volume_spike_item items (allTokens s) of
        (Thrown, toks) \<Rightarrow> (Thrown, s\<lparr>updateCount := updateCount s + 1, allTokens := toks\<rparr>)
      | (Returned, toks) \<Rightarrow>
          applyClientFilters (s\<lparr>updateCount := updateCount s + 1, allTokens := toks\<rparr>))"
  by (simp add: volume_spike_def Let_def split: prod.splits outcome.splits)

lemma forEach_completes:
  assumes st: "steady body"
    and store: "\<forall>t\<in>set toks. \<not> nullish t"
    and items: "\<forall>item\<in>set items. \<not> nullish item"
  shows "forEach body items toks = (Returned, snd (forEach body items toks))"
proof -
  obtain t1 where "forEach body items toks = (Returned, t1)"
    using forEach_steady [OF st store items] by blast
  then show ?thesis by simp
qed

lemma body_null_item:
  assumes "nullish bad" and "t1 \<noteq> []"
  shows "tokens_updated_item t1 bad = Inl TypeError"
    "price_update_item t1 bad = Inl TypeError"
    "volume_spike_item t1 bad = Inl TypeError"
  using find_token_null_item [OF assms(2,1)]
  by (simp_all add: tokens_updated_item_def price_update_item_def volume_spike_item_def)

text \<open>
  C4, as the code has it. Take a collection and a batch without \<^verbatim>\<open>null\<close> and
  \<^verbatim>\<open>undefined\<close> entries around one item \<open>bad\<close>. When \<open>bad\<close> is itself neither
  \<^verbatim>\<open>null\<close> nor \<^verbatim>\<open>undefined\<close> and matches no stored record (it has no
  address, or is no object at all, or names an unknown address), the loop of each of
  the three batch handlers runs to its end, and the handler goes on to its refresh of
  the view with exactly the collection that the batch without \<open>bad\<close> leaves, so that
  its result is the result of the batch without \<open>bad\<close>: the item is skipped and every
  other item is applied. (Whether the handler then returns is up to the rendering,
  with or without \<open>bad\<close>.) When \<open>bad\<close> is \<^verbatim>\<open>null\<close> or \<^verbatim>\<open>undefined\<close> and
  the collection is not empty, reading its address throws: the handler stops there
  with only the items before \<open>bad\<close> applied.
\<close>

theorem malformed_items_are_skipped:
  assumes store: "\<forall>t\<in>set (allTokens s). \<not> nullish t"
      and items: "\<forall>item\<in>set (pre @ post). \<not> nullish item"
      and ev: "get_prop event ''data'' = Inr (JArr (pre @ bad # post) m)"
      and ev': "get_prop event' ''data'' = Inr (JArr (pre @ post) m')"
  shows "(\<not> nullish bad \<and> (\<forall>t\<in>set (allTokens s). \<not> same_address t bad) \<longrightarrow>
           fst (forEach tokens_updated_item (pre @ bad # post) (allTokens s)) = Returned \<and>
           tokens_updated s event = tokens_updated s event' \<and>
           tokens_updated s event =
             applyClientFilters (s\<lparr>updateCount := updateCount s + 1,
               allTokens := snd (forEach tokens_updated_item (pre @ post) (allTokens s))\<rparr>) \<and>
           fst (forEach price_update_item (pre @ bad # post) (allTokens s)) = Returned \<and>
           price_update s event = price_update s event' \<and>
           price_update s event =
             applyClientFilters (s\<lparr>updateCount := updateCount s + 1,
               allTokens := snd (forEach price_update_item (pre @ post) (allTokens s))\<rparr>) \<and>
           fst (forEach volume_spike_item (pre @ bad # post) (allTokens s)) = Returned \<and>
           volume_spike s event = volume_spike s event' \<and>
           volume_spike s event =
             applyClientFilters (s\<lparr>updateCount := updateCount s + 1,
               allTokens := snd (forEach volume_spike_item (pre @ post) (allTokens s))\<rparr>)) \<and>
         (nullish bad \<and> allTokens s \<noteq> [] \<longrightarrow>
           fst (tokens_updated s event) = Thrown \<and>
           allTokens (snd (tokens_updated s event)) =
             snd (forEach tokens_updated_item pre (allTokens s)) \<and>
           fst (price_update s event) = Thrown \<and>
           allTokens (snd (price_update s event)) =
             snd (forEach price_update_item pre (allTokens s)) \<and>
           fst (volume_spike s event) = Thrown \<and>
           allTokens (snd (volume_spike s event)) =
             snd (forEach volume_spike_item pre (allTokens s)))"
proof (intro conjI impI)
  assume a: "\<not> nullish bad \<and> (\<forall>t\<in>set (allTokens s). \<not> same_address t bad)"
  have pre: "\<forall>item\<in>set pre. \<not> nullish item"
    using items by simp
  note skip = forEach_skips [OF _ _ store pre, of _ _ bad post]
  have 1: "forEach tokens_updated_item (pre @ bad # post) (allTokens s) =
           forEach tokens_updated_item (pre @ post) (allTokens s)"
    using a by (intro skip [OF steady_tokens_updated_item frames_tokens_updated_item]) simp_all
  have 2: "forEach price_update_item (pre @ bad # post) (allTokens s) =
           forEach price_update_item (pre @ post) (allTokens s)"
    using a by (intro skip [OF steady_price_update_item frames_price_update_item]) simp_all
  have 3: "forEach volume_spike_item (pre @ bad # post) (allTokens s) =
           forEach volume_spike_item (pre @ post) (allTokens s)"
    using a by (intro skip [OF steady_volume_spike_item frames_volume_spike_item]) simp_all
  note c1 = forEach_completes [OF steady_tokens_updated_item store items]
  note c2 = forEach_completes [OF steady_price_update_item store items]
  note c3 = forEach_completes [OF steady_volume_spike_item store items]
  show "fst (forEach tokens_updated_item (pre @ bad # post) (allTokens s)) = Returned"
    unfolding 1 by (subst c1) simp
  show "fst (forEach price_update_item (pre @ bad # post) (allTokens s)) = Returned"
    unfolding 2 by (subst c2) simp
  show "fst (forEach volume_spike_item (pre @ bad # post) (allTokens s)) = Returned"
    unfolding 3 by (subst c3) simp
  show "tokens_updated s event = tokens_updated s event'"
    unfolding tokens_updated_batch [OF ev] tokens_updated_batch [OF ev'] 1 ..
  show "price_update s event = price_update s event'"
    unfolding price_update_batch [OF ev] price_update_batch [OF ev'] 2 ..
  show "volume_spike s event = volume_spike s event'"
    unfolding volume_spike_batch [OF ev] volume_spike_batch [OF ev'] 3 ..
  show "tokens_updated s event =
             applyClientFilters (s\<lparr>updateCount := updateCount s + 1,
               allTokens := snd (forEach tokens_updated_item (pre @ post) (allTokens s))\<rparr>)"
    unfolding tokens_updated_batch [OF ev] 1 by (subst c1) simp
  show "price_update s event =
             applyClientFilters (s\<lparr>updateCount := updateCount s + 1,
               allTokens := snd (forEach price_update_item (pre @ post) (allTokens s))\<rparr>)"
    unfolding price_update_batch [OF ev] 2 by (subst c2) simp
  show "volume_spike s event =
             applyClientFilters (s\<lparr>updateCount := updateCount s + 1,
               allTokens := snd (forEach volume_spike_item (pre @ post) (allTokens s))\<rparr>)"
    unfolding volume_spike_batch [OF ev] 3 by (subst c3) simp
next
  assume a: "nullish bad \<and> allTokens s \<noteq> []"
  have pre: "\<forall>item\<in>set pre. \<not> nullish item"
    using items by simp
  have ne: "t1 \<noteq> []" if "length t1 = length (allTokens s)" for t1 :: "jsval list"
    using that a by auto
  note null = forEach_null_item [OF _ store pre, of _ bad post]
  have 1: "forEach tokens_updated_item (pre @ bad # post) (allTokens s) =
      (Thrown, snd (forEach tokens_updated_item pre (allTokens s)))"
    using a ne by (intro null [OF steady_tokens_updated_item] body_null_item) simp_all
  have 2: "forEach price_update_item (pre @ bad # post) (allTokens s) =
      (Thrown, snd (forEach price_update_item pre (allTokens s)))"
    using a ne by (intro null [OF steady_price_update_item] body_null_item) simp_all
  have 3: "forEach volume_spike_item (pre @ bad # post) (allTokens s) =
      (Thrown, snd (forEach volume_spike_item pre (allTokens s)))"
    using a ne by (intro null [OF steady_volume_spike_item] body_null_item) simp_all
  show "fst (tokens_updated s event) = Thrown"
    "allTokens (snd (tokens_updated s event)) =
       snd (forEach tokens_updated_item pre (allTokens s))"
    unfolding tokens_updated_batch [OF ev] 1 by simp_all
  show "fst (price_update s event) = Thrown"
    "allTokens (snd (price_update s event)) = snd (forEach price_update_item pre (allTokens s))"
    unfolding price_update_batch [OF ev] 2 by simp_all
  show "fst (volume_spike s event) = Thrown"
    "allTokens (snd (volume_spike s event)) = snd (forEach volume_spike_item pre (allTokens s))"
    unfolding volume_spike_batch [OF ev] 3 by simp_all
qed

text \<open>
  C4 as stated fails: a \<^verbatim>\<open>null\<close> item ahead of a well-formed one makes
  \<^verbatim>\<open>tokens_updated\<close> throw, and the well-formed item, which alone would set the
  price to 2, is not applied.
\<close>

theorem malformed_item_aborts_counterexample:
  "fst (tokens_updated
      (initial_state\<lparr>allTokens := [JObj [''token_address'' \<mapsto> JStr ''A'', ''price_sol'' \<mapsto> JNum 1]]\<rparr>)
      (event_of (JArr [JNull, JObj [''token_address'' \<mapsto> JStr ''A'', ''price_sol'' \<mapsto> JNum 2]]
         Map.empty))) = Thrown \<and>
   get_prop (allTokens (snd (tokens_updated
      (initial_state\<lparr>allTokens := [JObj [''token_address'' \<mapsto> JStr ''A'', ''price_sol'' \<mapsto> JNum 1]]\<rparr>)
      (event_of (JArr [JNull, JObj [''token_address'' \<mapsto> JStr ''A'', ''price_sol'' \<mapsto> JNum 2]]
         Map.empty)))) ! 0) ''price_sol'' = Inr (JNum 1) \<and>
   get_prop (allTokens (snd (tokens_updated
      (initial_state\<lparr>allTokens := [JObj [''token_address'' \<mapsto> JStr ''A'', ''price_sol'' \<mapsto> JNum 1]]\<rparr>)
      (event_of (JArr [JObj [''token_address'' \<mapsto> JStr ''A'', ''price_sol'' \<mapsto> JNum 2]]
         Map.empty)))) ! 0) ''price_sol'' = Inr (JNum 2)"
  by (simp add: tokens_updated_def tokens_updated_item_def spread2_def)

theorem malformed_items_are_skipped_witness:
  "tokens_updated
      (initial_state\<lparr>allTokens := [JObj [''token_address'' \<mapsto> JStr ''A'', ''price_sol'' \<mapsto> JNum 1]]\<rparr>)
      (event_of (JArr [JObj [''price_sol'' \<mapsto> JNum 9],
                       JObj [''token_address'' \<mapsto> JStr ''A'', ''price_sol'' \<mapsto> JNum 2]]
         Map.empty)) =
   tokens_updated
      (initial_state\<lparr>allTokens := [JObj [''token_address'' \<mapsto> JStr ''A'', ''price_sol'' \<mapsto> JNum 1]]\<rparr>)
      (event_of (JArr [JObj [''token_address'' \<mapsto> JStr ''A'', ''price_sol'' \<mapsto> JNum 2]]
         Map.empty)) \<and>
   fst (forEach tokens_updated_item
      [JObj [''price_sol'' \<mapsto> JNum 9],
       JObj [''token_address'' \<mapsto> JStr ''A'', ''price_sol'' \<mapsto> JNum 2]]
      [JObj [''token_address'' \<mapsto> JStr ''A'', ''price_sol'' \<mapsto> JNum 1]]) = Returned \<and>
   fst (price_update
      (initial_state\<lparr>allTokens := [JObj [''token_address'' \<mapsto> JStr ''A'', ''price_sol'' \<mapsto> JNum 1]]\<rparr>)
      (event_of (JArr [JUndefined,
                       JObj [''token_address'' \<mapsto> JStr ''A'', ''price_sol'' \<mapsto> JNum 2]]
         Map.empty))) = Thrown"
proof -
  let ?s = "initial_state\<lparr>allTokens :=
              [JObj [''token_address'' \<mapsto> JStr ''A'', ''price_sol'' \<mapsto> JNum 1]]\<rparr>"
  let ?bad = "JObj [''price_sol'' \<mapsto> JNum 9]"
  let ?good = "JObj [''token_address'' \<mapsto> JStr ''A'', ''price_sol'' \<mapsto> JNum 2]"
  have store: "\<forall>t\<in>set (allTokens ?s). \<not> nullish t" by simp
  have items: "\<forall>item\<in>set ([] @ [?good]). \<not> nullish item" by simp
  have ev: "get_prop (event_of (JArr [?bad, ?good] Map.empty)) ''data'' =
      Inr (JArr ([] @ ?bad # [?good]) Map.empty)" by simp
  have ev': "get_prop (event_of (JArr [?good] Map.empty)) ''data'' =
      Inr (JArr ([] @ [?good]) Map.empty)" by simp
  have bad: "\<not> nullish ?bad \<and> (\<forall>t\<in>set (allTokens ?s). \<not> same_address t ?bad)"
    by (simp add: same_address_def)
  have evn: "get_prop (event_of (JArr [JUndefined, ?good] Map.empty)) ''data'' =
      Inr (JArr ([] @ JUndefined # [?good]) Map.empty)" by simp
  have null: "nullish JUndefined \<and> allTokens ?s \<noteq> []" by simp
  have toks: "allTokens ?s =
      [JObj [''token_address'' \<mapsto> JStr ''A'', ''price_sol'' \<mapsto> JNum 1]]" by simp
  have app: "[] @ ?bad # [?good] = [?bad, ?good]" by simp
  from malformed_items_are_skipped [OF store items ev ev'] bad
    malformed_items_are_skipped [OF store items evn ev'] null
  show ?thesis unfolding toks app by blast
qed

end
